theory Spec2Isabelle
  imports Complex_Main
begin

section \<open>The Lissajous audio generator (lissajous.py)\<close>

text \<open>
  The program is a wxPython front end over the pyo audio engine. The embedding keeps the
  objects of the source as records and the handlers as functions from state to state.
  A Python float is kept as the rational number it stands for, and the arithmetic of the
  program on floats rounds as Python's does.
  An exception leaves the mutations made before it in place, so a handler that can raise
  returns the exception (if any) together with the state it leaves behind.
\<close>

subsection \<open>Constants\<close>

definition CH_CNT :: nat where
  "CH_CNT = 3 * 2"

definition PLAY_TIME :: nat where
  "PLAY_TIME = 10 * 1000"

definition FRAMERATE :: nat where
  "FRAMERATE = 200"

definition INIT_FREQ :: rat where
  "INIT_FREQ = 400"

definition INIT_PHASE :: rat where
  "INIT_PHASE = 0"

definition INIT_MUL :: rat where
  "INIT_MUL = 1 / 2"

subsection \<open>Exceptions\<close>

datatype error = IndexError | ValueError | IOError | AttributeError

type_synonym 'st outcome = "error option \<times> 'st"

subsection \<open>Python's floats\<close>

text \<open>
  A float is an IEEE 754 double. An operation on floats gives the exact result rounded
  to the nearest double, with 53 binary digits and ties to the even one. \<open>double\<close> is
  this rounding: \<open>exponent x\<close> is the \<open>e\<close> with \<open>2^e \<le> x < 2^(e+1)\<close>, found from the
  numbers of binary digits of numerator and denominator. Overflow, subnormal numbers,
  infinities and NaN are outside the model.
\<close>

function bit_length :: "int \<Rightarrow> int" where
  "bit_length n = (if n \<le> 0 then 0 else 1 + bit_length (n div 2))"
  by pat_completeness auto
termination
  by (relation "measure nat") auto

declare bit_length.simps [simp del]

definition exponent :: "rat \<Rightarrow> int" where
  "exponent x =
     (let (p, q) = quotient_of x;
          e = bit_length p - bit_length q
      in if power_int 2 e \<le> x then e else e - 1)"

definition round_even :: "rat \<Rightarrow> int" where
  "round_even q =
     (let n = \<lfloor>q\<rfloor>; r = q - of_int n
      in if r < 1 / 2 then n else if 1 / 2 < r then n + 1 else if even n then n else n + 1)"

definition double :: "rat \<Rightarrow> rat" where
  "double x =
     (if x = 0 then 0
      else let u = power_int 2 (exponent \<bar>x\<bar> - 52)
           in sgn x * of_int (round_even (\<bar>x\<bar> / u)) * u)"

definition fmul :: "rat \<Rightarrow> rat \<Rightarrow> rat" where
  "fmul x y = double (x * y)"

definition fdiv :: "rat \<Rightarrow> rat \<Rightarrow> rat" where
  "fdiv x y = double (x / y)"

subsection \<open>The toolkit's controls\<close>

text \<open>
  A \<open>FloatSpin\<close> and a \<open>wx.Slider\<close> hold a value between the bounds given when the
  control is created (lines 142, 147 and 152). The slider holds an integer position.
  The spinner holds the float it is given: \<open>digits=1\<close> is the number of decimals it
  shows, and \<open>GetValue\<close> returns the float held.
\<close>

record FloatSpin =
  fs_Id :: nat
  fs_value :: rat
  min_val :: rat
  max_val :: rat

record Slider =
  sl_Id :: nat
  sl_value :: int
  minValue :: int
  maxValue :: int

text \<open>
  Modelled from the spec: the code of \<open>SetValue\<close> belongs to the toolkit, and the
  spec says that a control clamps what it is given to its declared range.
\<close>

definition FloatSpin_SetValue :: "rat \<Rightarrow> FloatSpin \<Rightarrow> FloatSpin" where
  "FloatSpin_SetValue v c = c\<lparr>fs_value := max (min_val c) (min (max_val c) v)\<rparr>"

definition Slider_SetValue :: "int \<Rightarrow> Slider \<Rightarrow> Slider" where
  "Slider_SetValue v c = c\<lparr>sl_value := max (minValue c) (min (maxValue c) v)\<rparr>"

text \<open>
  The slider takes an integer: a float handed to it (lines 147 and 246) is cut to an
  integer towards zero on the way in.
\<close>

definition trunc_int :: "rat \<Rightarrow> int" where
  "trunc_int v = (if 0 \<le> v then \<lfloor>v\<rfloor> else \<lceil>v\<rceil>)"

subsection \<open>The engine's objects\<close>

text \<open>
  A \<open>pyo.Sine\<close> keeps the frequency, gain and phase last given to it (the attributes
  \<open>freq\<close>, \<open>mul\<close> and \<open>phase\<close> read by \<open>get_audio_params\<close>), the position of its
  running phase accumulator, which \<open>reset()\<close> puts back to 0, and whether it plays.
\<close>

record Sine =
  sine_freq :: rat
  sine_mul :: rat
  sine_phase :: rat
  pointer :: rat
  playing :: bool

definition Sine_new :: "rat \<Rightarrow> rat \<Rightarrow> Sine" where
  "Sine_new f m = \<lparr>sine_freq = f, sine_mul = m, sine_phase = 0, pointer = 0, playing = True\<rparr>"

definition Sine_stop :: "Sine \<Rightarrow> Sine" where
  "Sine_stop f = f\<lparr>playing := False\<rparr>"

definition Sine_play :: "Sine \<Rightarrow> Sine" where
  "Sine_play f = f\<lparr>playing := True\<rparr>"

definition Sine_reset :: "Sine \<Rightarrow> Sine" where
  "Sine_reset f = f\<lparr>pointer := 0\<rparr>"

definition Sine_setFreq :: "rat \<Rightarrow> Sine \<Rightarrow> Sine" where
  "Sine_setFreq v f = f\<lparr>sine_freq := v\<rparr>"

definition Sine_setMul :: "rat \<Rightarrow> Sine \<Rightarrow> Sine" where
  "Sine_setMul v f = f\<lparr>sine_mul := v\<rparr>"

definition Sine_setPhase :: "rat \<Rightarrow> Sine \<Rightarrow> Sine" where
  "Sine_setPhase v f = f\<lparr>sine_phase := v\<rparr>"

text \<open>
  \<open>pyo.Pan(pyo.Mix(sin_list), pan, spread)\<close>: the oscillators mixed into the group are
  the objects of \<open>self.func\<close> themselves, so the group names them by their index there.
\<close>

record PanMix =
  inputs :: "nat list"
  pan :: rat
  spread :: rat
  pan_mul :: rat
  out_enabled :: bool

text \<open>The calls made on the pyo server, oldest first.\<close>

datatype server_call = boot | start | stop | recstart string | recstop

subsection \<open>AudioControl\<close>

record AudioControl =
  freq :: "FloatSpin list"
  freq_idlist :: "nat list"
  phase :: "FloatSpin list"
  phase_idlist :: "nat list"
  mul :: "Slider list"
  mul_idlist :: "nat list"
  func :: "Sine list"
  Lch :: PanMix
  Rch :: PanMix
  server :: "server_call list"
  recording :: bool
  trig_tbl :: bool

text \<open>
  \<open>init_audio\<close> (lines 121-172). The toolkit gives every control an Id of its own;
  \<open>wid\<close> is the first one handed out, and the three controls of channel \<open>i\<close> are
  created in the order of the loop body.
\<close>

definition init_mul :: "nat \<Rightarrow> rat" where
  "init_mul i = (if i = 0 \<or> i = CH_CNT div 2 then INIT_MUL else 0)"

definition is_right :: "nat \<Rightarrow> bool" where
  "is_right i = (int i > int (CH_CNT div 2) - 1)"

definition init_audio :: "nat \<Rightarrow> AudioControl" where
  "init_audio wid =
     \<lparr>freq = map (\<lambda>i. \<lparr>fs_Id = wid + 3 * i, fs_value = INIT_FREQ,
                         min_val = 20, max_val = 20000\<rparr>) [0..<CH_CNT],
      freq_idlist = map (\<lambda>i. wid + 3 * i) [0..<CH_CNT],
      phase = map (\<lambda>i. \<lparr>fs_Id = wid + 3 * i + 2, fs_value = INIT_PHASE,
                          min_val = 0, max_val = 360\<rparr>) [0..<CH_CNT],
      phase_idlist = map (\<lambda>i. wid + 3 * i + 2) [0..<CH_CNT],
      mul = map (\<lambda>i. \<lparr>sl_Id = wid + 3 * i + 1, sl_value = trunc_int (fmul (init_mul i) 100),
                        minValue = 0, maxValue = 105\<rparr>) [0..<CH_CNT],
      mul_idlist = map (\<lambda>i. wid + 3 * i + 1) [0..<CH_CNT],
      func = map (\<lambda>i. Sine_new INIT_FREQ (init_mul i)) [0..<CH_CNT],
      Lch = \<lparr>inputs = filter (\<lambda>i. \<not> is_right i) [0..<CH_CNT], pan = 0, spread = 0,
             pan_mul = 1 / 2, out_enabled = True\<rparr>,
      Rch = \<lparr>inputs = filter is_right [0..<CH_CNT], pan = 1, spread = 0,
             pan_mul = 1 / 2, out_enabled = True\<rparr>,
      server = [boot],
      recording = False,
      trig_tbl = False\<rparr>"

text \<open>\<open>start_buffer\<close> (lines 175-180): arm or disarm the recording of the plot sample.\<close>

definition start_buffer :: "bool \<Rightarrow> AudioControl \<Rightarrow> AudioControl" where
  "start_buffer enable a = (if enable then a\<lparr>trig_tbl := True\<rparr> else a\<lparr>trig_tbl := False\<rparr>)"

text \<open>\<open>reset_phase\<close> (lines 215-219): \<open>zip\<close> stops at the shorter of the two lists.\<close>

definition reset_phase :: "AudioControl \<Rightarrow> AudioControl" where
  "reset_phase a =
     a\<lparr>func := map (\<lambda>(f, ph). Sine_setPhase (fdiv (fs_value ph) 360) (Sine_reset f))
                    (zip (func a) (phase a))
                @ drop (length (phase a)) (func a)\<rparr>"

text \<open>\<open>enable_server\<close> (lines 222-227).\<close>

definition enable_server :: "bool \<Rightarrow> AudioControl \<Rightarrow> AudioControl" where
  "enable_server enable a =
     (if enable then a\<lparr>server := server a @ [start]\<rparr> else a\<lparr>server := server a @ [stop]\<rparr>)"

text \<open>\<open>record\<close> (lines 230-239): returns the new value of the flag.\<close>

definition record_wav :: "string \<Rightarrow> AudioControl \<Rightarrow> bool \<times> AudioControl" where
  "record_wav filename a =
     (let a' = (if \<not> recording a
                then a\<lparr>server := server a @ [recstart filename], recording := True\<rparr>
                else a\<lparr>server := server a @ [recstop], recording := False\<rparr>)
      in (recording a', a'))"

text \<open>
  Statements run in order, and the first one that raises ends the run with the state
  as the statements before it left it.
\<close>

fun run :: "('st \<Rightarrow> 'st outcome) list \<Rightarrow> 'st \<Rightarrow> 'st outcome" where
  "run [] a = (None, a)"
| "run (c # cs) a = (case c a of (Some e, a') \<Rightarrow> (Some e, a') | (None, a') \<Rightarrow> run cs a')"

text \<open>
  \<open>set_audio_params\<close> (lines 242-254). \<open>pyfloat\<close> stands for Python's \<open>float\<close> on the
  fields of a row: \<open>None\<close> where it raises ValueError. A row shorter than the field
  asked for raises IndexError, and so does a row index beyond the list that is indexed.
  In each statement the list is indexed before the argument is evaluated.
\<close>

definition float_field :: "('f \<Rightarrow> rat option) \<Rightarrow> 'f list \<Rightarrow> nat \<Rightarrow> error + rat" where
  "float_field pyfloat f n =
     (if n < length f
      then (case pyfloat (f ! n) of None \<Rightarrow> Inl ValueError | Some v \<Rightarrow> Inr v)
      else Inl IndexError)"

definition set_freq_ctrl :: "('f \<Rightarrow> rat option) \<Rightarrow> nat \<Rightarrow> 'f list \<Rightarrow> AudioControl \<Rightarrow> AudioControl outcome" where
  "set_freq_ctrl pyfloat idx f a =
     (if length (freq a) \<le> idx then (Some IndexError, a)
      else case float_field pyfloat f 0 of
             Inl e \<Rightarrow> (Some e, a)
           | Inr v \<Rightarrow> (None, a\<lparr>freq := (freq a)[idx := FloatSpin_SetValue v (freq a ! idx)]\<rparr>))"

definition set_mul_ctrl :: "('f \<Rightarrow> rat option) \<Rightarrow> nat \<Rightarrow> 'f list \<Rightarrow> AudioControl \<Rightarrow> AudioControl outcome" where
  "set_mul_ctrl pyfloat idx f a =
     (if length (mul a) \<le> idx then (Some IndexError, a)
      else case float_field pyfloat f 1 of
             Inl e \<Rightarrow> (Some e, a)
           | Inr v \<Rightarrow>
               (None, a\<lparr>mul := (mul a)[idx := Slider_SetValue (trunc_int (fmul v 100)) (mul a ! idx)]\<rparr>))"

definition set_phase_ctrl :: "('f \<Rightarrow> rat option) \<Rightarrow> nat \<Rightarrow> 'f list \<Rightarrow> AudioControl \<Rightarrow> AudioControl outcome" where
  "set_phase_ctrl pyfloat idx f a =
     (if length (phase a) \<le> idx then (Some IndexError, a)
      else case float_field pyfloat f 2 of
             Inl e \<Rightarrow> (Some e, a)
           | Inr v \<Rightarrow> (None, a\<lparr>phase := (phase a)[idx := FloatSpin_SetValue (fmul v 360) (phase a ! idx)]\<rparr>))"

text \<open>A call \<open>self.func[idx].m()\<close>, and a call \<open>self.func[idx].m(float(f[n]))\<close>.\<close>

definition func_call :: "nat \<Rightarrow> (Sine \<Rightarrow> Sine) \<Rightarrow> AudioControl \<Rightarrow> AudioControl outcome" where
  "func_call idx m a =
     (if length (func a) \<le> idx then (Some IndexError, a)
      else (None, a\<lparr>func := (func a)[idx := m (func a ! idx)]\<rparr>))"

definition func_call_float :: "('f \<Rightarrow> rat option) \<Rightarrow> nat \<Rightarrow> 'f list \<Rightarrow> nat \<Rightarrow> (rat \<Rightarrow> Sine \<Rightarrow> Sine) \<Rightarrow> AudioControl \<Rightarrow> AudioControl outcome" where
  "func_call_float pyfloat idx f n m a =
     (if length (func a) \<le> idx then (Some IndexError, a)
      else case float_field pyfloat f n of
             Inl e \<Rightarrow> (Some e, a)
           | Inr v \<Rightarrow> (None, a\<lparr>func := (func a)[idx := m v (func a ! idx)]\<rparr>))"

text \<open>The body of the loop, lines 245-253, one statement per line.\<close>

definition set_row :: "('f \<Rightarrow> rat option) \<Rightarrow> nat \<Rightarrow> 'f list \<Rightarrow> AudioControl \<Rightarrow> AudioControl outcome" where
  "set_row pyfloat idx f =
     run [set_freq_ctrl pyfloat idx f,
          set_mul_ctrl pyfloat idx f,
          set_phase_ctrl pyfloat idx f,
          func_call idx Sine_stop,
          func_call idx Sine_reset,
          func_call_float pyfloat idx f 0 Sine_setFreq,
          func_call_float pyfloat idx f 1 Sine_setMul,
          func_call_float pyfloat idx f 2 Sine_setPhase,
          func_call idx Sine_play]"

text \<open>The loop over \<open>enumerate(funclist)\<close>, counting from \<open>idx\<close>.\<close>

definition set_rows :: "('f \<Rightarrow> rat option) \<Rightarrow> nat \<Rightarrow> 'f list list \<Rightarrow> AudioControl \<Rightarrow> AudioControl outcome" where
  "set_rows pyfloat idx funclist =
     run (map (\<lambda>(i, f). set_row pyfloat i f) (List.enumerate idx funclist))"

definition set_audio_params :: "('f \<Rightarrow> rat option) \<Rightarrow> 'f list list \<Rightarrow> AudioControl \<Rightarrow> AudioControl outcome" where
  "set_audio_params pyfloat funclist =
     run [set_rows pyfloat 0 funclist, \<lambda>a. (None, reset_phase a)]"

text \<open>\<open>get_audio_params\<close> (lines 257-260).\<close>

definition get_audio_params :: "AudioControl \<Rightarrow> (rat \<times> rat \<times> rat) list" where
  "get_audio_params a = map (\<lambda>f. (sine_freq f, sine_mul f, sine_phase f)) (func a)"

text \<open>
  The handlers of the controls (lines 194-212). The event carries the Id of the control
  that was moved; \<open>list_index\<close> is Python's \<open>list.index\<close>, which raises ValueError
  for a value that is not in the list. A handler is bound to the controls of one list
  only (lines 144, 149 and 154), so the window found for the Id is looked up there.
\<close>

fun list_index :: "'a list \<Rightarrow> 'a \<Rightarrow> nat option" where
  "list_index [] x = None"
| "list_index (y # ys) x = (if y = x then Some 0 else map_option Suc (list_index ys x))"

definition fspin :: "nat \<Rightarrow> AudioControl \<Rightarrow> AudioControl outcome" where
  "fspin spinnerID a =
     (case list_index (freq_idlist a) spinnerID of
        None \<Rightarrow> (Some ValueError, a)
      | Some chidx \<Rightarrow>
          if length (func a) \<le> chidx then (Some IndexError, a)
          else (case find (\<lambda>c. fs_Id c = spinnerID) (freq a) of
                  None \<Rightarrow> (Some AttributeError, a)
                | Some spinnerCtrl \<Rightarrow>
                    (None, a\<lparr>func := (func a)[chidx :=
                               Sine_setFreq (fs_value spinnerCtrl) (func a ! chidx)]\<rparr>)))"

definition phspin :: "AudioControl \<Rightarrow> AudioControl" where
  "phspin a = reset_phase a"

definition mspin :: "nat \<Rightarrow> AudioControl \<Rightarrow> AudioControl outcome" where
  "mspin ID a =
     (case list_index (mul_idlist a) ID of
        None \<Rightarrow> (Some ValueError, a)
      | Some chidx \<Rightarrow>
          if length (func a) \<le> chidx then (Some IndexError, a)
          else (case find (\<lambda>c. sl_Id c = ID) (mul a) of
                  None \<Rightarrow> (Some AttributeError, a)
                | Some ctrl \<Rightarrow>
                    (None, a\<lparr>func := (func a)[chidx :=
                               Sine_setMul (fdiv (of_int (sl_value ctrl)) 100) (func a ! chidx)]\<rparr>)))"

text \<open>
  What a group sends to its side of the output at one instant: \<open>x i\<close> is the value of
  the unit sine of oscillator \<open>i\<close> at that instant. An oscillator scales it by its gain,
  the mix adds the oscillators of the group, and the group's own \<open>mul\<close> scales the sum.
\<close>

definition Sine_out :: "Sine \<Rightarrow> rat \<Rightarrow> rat" where
  "Sine_out f x = (if playing f then sine_mul f * x else 0)"

definition Mix_out :: "nat list \<Rightarrow> Sine list \<Rightarrow> (nat \<Rightarrow> rat) \<Rightarrow> rat" where
  "Mix_out chans fs x = (\<Sum>i\<leftarrow>chans. Sine_out (fs ! i) (x i))"

definition Pan_out :: "PanMix \<Rightarrow> Sine list \<Rightarrow> (nat \<Rightarrow> rat) \<Rightarrow> rat" where
  "Pan_out g fs x = pan_mul g * Mix_out (inputs g) fs x"

subsection \<open>mainFrame\<close>

text \<open>
  The buttons are kept by their labels, a timer by its period while it runs, and
  \<open>filelist\<close> is an attribute that does not exist before the first load.
\<close>

record mainFrame =
  audio :: AudioControl
  startButton :: string
  recButton :: string
  grphButton :: string
  multifile_timer :: "nat option"
  redraw_timer :: "nat option"
  filelist :: "string list option"
  graphing :: bool

text \<open>\<open>toggle_graph\<close> (lines 425-434).\<close>

definition toggle_graph :: "mainFrame \<Rightarrow> mainFrame" where
  "toggle_graph m =
     (if graphing m = False
      then m\<lparr>graphing := True, audio := start_buffer True (audio m), grphButton := ''Pause Graph''\<rparr>
      else m\<lparr>graphing := False, audio := start_buffer False (audio m), grphButton := ''Start Graph''\<rparr>)"

text \<open>
  The constructor (lines 266-274, with \<open>init_frame\<close>, lines 291-329): the frame as it is
  when line 273 has run, and the frame at the end of the constructor, after line 274.
\<close>

definition init_frame :: "nat \<Rightarrow> mainFrame" where
  "init_frame wid =
     \<lparr>audio = init_audio wid,
      startButton = ''Start'',
      recButton = ''Record WAV'',
      grphButton = ''Pause Graph'',
      multifile_timer = None,
      redraw_timer = Some FRAMERATE,
      filelist = None,
      graphing = False\<rparr>"

definition mainFrame_init :: "nat \<Rightarrow> mainFrame" where
  "mainFrame_init wid = toggle_graph (init_frame wid)"




text \<open>
  Files. A file is the list of rows that \<open>csv.reader\<close> yields from it, and the file
  system maps a path to its file; \<open>open\<close> raises IOError for a path with no file.
  \<open>start_next_file\<close> (lines 390-398) pops the path before it opens the file.
\<close>

type_synonym 'f files = "string \<Rightarrow> 'f list list option"

definition load_file :: "('f \<Rightarrow> rat option) \<Rightarrow> 'f files \<Rightarrow> string \<Rightarrow> AudioControl \<Rightarrow> AudioControl outcome" where
  "load_file pyfloat fs fname a =
     (case fs fname of
        None \<Rightarrow> (Some IOError, a)
      | Some reader \<Rightarrow> set_audio_params pyfloat reader a)"

definition start_next_file :: "('f \<Rightarrow> rat option) \<Rightarrow> 'f files \<Rightarrow> mainFrame \<Rightarrow> mainFrame outcome" where
  "start_next_file pyfloat fs m =
     (case filelist m of
        None \<Rightarrow> (Some AttributeError, m)
      | Some [] \<Rightarrow> (None, m)
      | Some (fname # rest) \<Rightarrow>
          (let (e, a) = load_file pyfloat fs fname (audio m)
           in (e, m\<lparr>filelist := Some rest, audio := a\<rparr>)))"

text \<open>
  \<open>load_press\<close> (lines 352-368). The dialog is created with the style \<open>wx.OPEN\<close> alone
  (line 358): without \<open>wx.MULTIPLE\<close> the user selects one file in it, and \<open>GetPaths\<close>
  returns the list of this one path. \<open>dlg\<close> is what the user did with the dialog: \<open>None\<close>
  when it was cancelled, the path selected otherwise. \<open>load_paths\<close> is lines 361-367 as
  they are written, for the list that \<open>GetPaths\<close> returned.
\<close>

definition GetPaths :: "string \<Rightarrow> string list" where
  "GetPaths path = [path]"

definition load_paths :: "('f \<Rightarrow> rat option) \<Rightarrow> 'f files \<Rightarrow> string list \<Rightarrow> mainFrame \<Rightarrow> mainFrame outcome" where
  "load_paths pyfloat fs paths m =
     start_next_file pyfloat fs
       (if length paths > 1
        then m\<lparr>filelist := Some paths, multifile_timer := Some PLAY_TIME\<rparr>
        else m\<lparr>filelist := Some paths\<rparr>)"

definition load_press :: "('f \<Rightarrow> rat option) \<Rightarrow> 'f files \<Rightarrow> string option \<Rightarrow> mainFrame \<Rightarrow> mainFrame outcome" where
  "load_press pyfloat fs dlg m =
     (case dlg of
        None \<Rightarrow> (None, m)
      | Some path \<Rightarrow> load_paths pyfloat fs (GetPaths path) m)"




text \<open>
  \<open>save_press\<close> (lines 339-349): \<open>csv.writer\<close> writes one row for each channel, each
  number as the text \<open>pyrepr\<close> gives for it. The result is the file system after the save.
\<close>

definition save_press :: "(rat \<Rightarrow> 'f) \<Rightarrow> string option \<Rightarrow> 'f files \<Rightarrow> mainFrame \<Rightarrow> 'f files" where
  "save_press pyrepr dlg fs m =
     (case dlg of
        None \<Rightarrow> fs
      | Some path \<Rightarrow>
          fs(path \<mapsto> map (\<lambda>(f, g, p). [pyrepr f, pyrepr g, pyrepr p])
                           (get_audio_params (audio m))))"

subsection \<open>The user at the controls\<close>

text \<open>
  The user sets control \<open>i\<close> to \<open>v\<close>; the control keeps the value within its range and
  the toolkit then calls the handler bound to it, with the Id of the control.
\<close>

definition move_freq :: "nat \<Rightarrow> rat \<Rightarrow> AudioControl \<Rightarrow> AudioControl outcome" where
  "move_freq i v a =
     fspin (fs_Id (freq a ! i)) (a\<lparr>freq := (freq a)[i := FloatSpin_SetValue v (freq a ! i)]\<rparr>)"

definition move_mul :: "nat \<Rightarrow> int \<Rightarrow> AudioControl \<Rightarrow> AudioControl outcome" where
  "move_mul i v a =
     mspin (sl_Id (mul a ! i)) (a\<lparr>mul := (mul a)[i := Slider_SetValue v (mul a ! i)]\<rparr>)"

definition move_phase :: "nat \<Rightarrow> rat \<Rightarrow> AudioControl \<Rightarrow> AudioControl" where
  "move_phase i v a =
     phspin (a\<lparr>phase := (phase a)[i := FloatSpin_SetValue v (phase a ! i)]\<rparr>)"

text \<open>The states of the audio panel that the program can be in.\<close>

inductive reachable :: "AudioControl \<Rightarrow> bool" where
  created: "reachable (init_audio wid)"
| buffer: "reachable a \<Longrightarrow> reachable (start_buffer enable a)"
| engine: "reachable a \<Longrightarrow> reachable (enable_server enable a)"
| wav: "reachable a \<Longrightarrow> reachable (snd (record_wav filename a))"
| params: "reachable a \<Longrightarrow> reachable (snd (set_audio_params pyfloat (funclist :: string list list) a))"
| freq_moved: "reachable a \<Longrightarrow> i < CH_CNT \<Longrightarrow> reachable (snd (move_freq i v a))"
| mul_moved: "reachable a \<Longrightarrow> i < CH_CNT \<Longrightarrow> reachable (snd (move_mul i w a))"
| phase_moved: "reachable a \<Longrightarrow> i < CH_CNT \<Longrightarrow> reachable (move_phase i v a)"


subsection \<open>Notions used to state the properties\<close>

text \<open>The four lists of per-channel objects all have \<open>n\<close> entries.\<close>

definition sizes :: "AudioControl \<Rightarrow> nat \<Rightarrow> bool" where
  "sizes a n = (length (freq a) = n \<and> length (mul a) = n \<and> length (phase a) = n \<and> length (func a) = n)"

text \<open>
  The panel as \<open>init_audio\<close> builds it and every handler keeps it: one entry per channel
  in each list, the Id lists in step with the controls, no Id twice, the ranges of the
  controls as declared, and the two groups as lines 162-167 set them up.
\<close>

definition well_formed :: "AudioControl \<Rightarrow> bool" where
  "well_formed a =
     (sizes a CH_CNT
      \<and> freq_idlist a = map fs_Id (freq a) \<and> distinct (freq_idlist a)
      \<and> mul_idlist a = map sl_Id (mul a) \<and> distinct (mul_idlist a)
      \<and> phase_idlist a = map fs_Id (phase a) \<and> distinct (phase_idlist a)
      \<and> list_all (\<lambda>c. min_val c = 20 \<and> max_val c = 20000) (freq a)
      \<and> list_all (\<lambda>c. minValue c = 0 \<and> maxValue c = 105) (mul a)
      \<and> list_all (\<lambda>c. min_val c = 0 \<and> max_val c = 360) (phase a)
      \<and> Lch a = \<lparr>inputs = [0, 1, 2], pan = 0, spread = 0, pan_mul = 1 / 2, out_enabled = True\<rparr>
      \<and> Rch a = \<lparr>inputs = [3, 4, 5], pan = 1, spread = 0, pan_mul = 1 / 2, out_enabled = True\<rparr>)"

text \<open>The three numbers of a row, when all three fields are there and \<open>float\<close> takes them.\<close>

definition row_values :: "('f \<Rightarrow> rat option) \<Rightarrow> 'f list \<Rightarrow> (rat \<times> rat \<times> rat) option" where
  "row_values pyfloat f =
     (case (float_field pyfloat f 0, float_field pyfloat f 1, float_field pyfloat f 2) of
        (Inr v0, Inr v1, Inr v2) \<Rightarrow> Some (v0, v1, v2)
      | _ \<Rightarrow> None)"

text \<open>The objects of channel \<open>i\<close>: its three controls and its oscillator.\<close>

definition channel :: "AudioControl \<Rightarrow> nat \<Rightarrow> FloatSpin \<times> Slider \<times> FloatSpin \<times> Sine" where
  "channel a i = (freq a ! i, mul a ! i, phase a ! i, func a ! i)"

text \<open>
  What lines 245-253 leave in a channel for the row values \<open>vs\<close>: the oscillator, and
  the channel with its three controls.
\<close>

definition sine_of :: "rat \<times> rat \<times> rat \<Rightarrow> Sine" where
  "sine_of vs = (case vs of (v0, v1, v2) \<Rightarrow>
     \<lparr>sine_freq = v0, sine_mul = v1, sine_phase = v2, pointer = 0, playing = True\<rparr>)"

definition row_channel :: "rat \<times> rat \<times> rat \<Rightarrow> FloatSpin \<times> Slider \<times> FloatSpin \<times> Sine \<Rightarrow> FloatSpin \<times> Slider \<times> FloatSpin \<times> Sine" where
  "row_channel vs c = (case (vs, c) of ((v0, v1, v2), (cf, cm, cp, f)) \<Rightarrow>
     (FloatSpin_SetValue v0 cf, Slider_SetValue (trunc_int (fmul v1 100)) cm,
      FloatSpin_SetValue (fmul v2 360) cp, sine_of vs))"

text \<open>
  A phase \<open>p\<close> is put into the phase spinner in degrees (line 247), and \<open>reset_phase\<close>
  takes the phase of the oscillator from there (line 219). \<open>loaded_channel\<close> is the
  channel after both, for a phase whose degrees the spinner takes as they are.
\<close>

definition degrees_and_back :: "rat \<Rightarrow> rat" where
  "degrees_and_back p = fdiv (fmul p 360) 360"

definition loaded_channel :: "rat \<times> rat \<times> rat \<Rightarrow> FloatSpin \<times> Slider \<times> FloatSpin \<times> Sine \<Rightarrow> FloatSpin \<times> Slider \<times> FloatSpin \<times> Sine" where
  "loaded_channel vs c = (case (vs, c) of ((v0, v1, v2), (cf, cm, cp, f)) \<Rightarrow>
     (FloatSpin_SetValue v0 cf, Slider_SetValue (trunc_int (fmul v1 100)) cm,
      FloatSpin_SetValue (fmul v2 360) cp, sine_of (v0, v1, degrees_and_back v2)))"

definition put_row :: "nat \<Rightarrow> rat \<times> rat \<times> rat \<Rightarrow> AudioControl \<Rightarrow> AudioControl" where
  "put_row idx vs a =
     (case vs of (v0, v1, v2) \<Rightarrow>
        a\<lparr>freq := (freq a)[idx := FloatSpin_SetValue v0 (freq a ! idx)],
          mul := (mul a)[idx := Slider_SetValue (trunc_int (fmul v1 100)) (mul a ! idx)],
          phase := (phase a)[idx := FloatSpin_SetValue (fmul v2 360) (phase a ! idx)],
          func := (func a)[idx := sine_of vs]\<rparr>)"

definition put_rows :: "nat \<Rightarrow> (rat \<times> rat \<times> rat) list \<Rightarrow> AudioControl \<Rightarrow> AudioControl" where
  "put_rows idx vals a = foldl (\<lambda>b (i, vs). put_row i vs b) a (List.enumerate idx vals)"

text \<open>\<open>record\<close> called \<open>n\<close> times in a row: the values returned, and the final state.\<close>

fun record_calls :: "string \<Rightarrow> nat \<Rightarrow> AudioControl \<Rightarrow> bool list \<times> AudioControl" where
  "record_calls filename 0 a = ([], a)"
| "record_calls filename (Suc n) a =
     (let (r, a') = record_wav filename a;
          (rs, a'') = record_calls filename n a'
      in (r # rs, a''))"

subsection \<open>Files as text\<close>

text \<open>
  For the examples: \<open>csv.reader\<close> on a text without quotes (a row for each line, the
  fields of a line split at the commas, no fields for an empty line), Python's \<open>float\<close>
  on a plain decimal literal (an optional sign, digits, an optional point and digits),
  which gives the double nearest to the number written.
\<close>

fun split_on :: "char \<Rightarrow> string \<Rightarrow> string list" where
  "split_on c [] = [[]]"
| "split_on c (x # xs) =
     (if x = c then [] # split_on c xs
      else (case split_on c xs of [] \<Rightarrow> [[x]] | w # ws \<Rightarrow> (x # w) # ws))"

definition csv_reader :: "string \<Rightarrow> string list list" where
  "csv_reader text =
     (let ls = split_on (CHR 0x0A) text;
          ls' = (if last ls = [] then butlast ls else ls)
      in map (\<lambda>l. if l = [] then [] else split_on (CHR '','') l) ls')"

definition digit_of :: "char \<Rightarrow> nat option" where
  "digit_of c = (let n = (of_char c :: nat) in if 48 \<le> n \<and> n \<le> 57 then Some (n - 48) else None)"

fun digits_value :: "nat \<Rightarrow> string \<Rightarrow> nat option" where
  "digits_value acc [] = Some acc"
| "digits_value acc (c # cs) =
     (case digit_of c of None \<Rightarrow> None | Some d \<Rightarrow> digits_value (10 * acc + d) cs)"

definition decimal_float :: "string \<Rightarrow> rat option" where
  "decimal_float s =
     (let (sign, body) = (case s of
                            [] \<Rightarrow> (1, s)
                          | c # r \<Rightarrow> if c = CHR ''-'' then (- 1, r)
                                     else if c = CHR ''+'' then (1, r) else (1, s));
          ip = takeWhile (\<lambda>c. c \<noteq> CHR ''.'') body;
          fp = drop 1 (dropWhile (\<lambda>c. c \<noteq> CHR ''.'') body)
      in if ip = [] \<and> fp = [] then None
         else case (digits_value 0 ip, digits_value 0 fp) of
                (Some i, Some f) \<Rightarrow> Some (double (sign * (of_nat i + of_nat f / 10 ^ length fp)))
              | _ \<Rightarrow> None)"

text \<open>Two files for the examples: one with seven rows, one with a bad second row.\<close>

definition seven_rows :: string where
  "seven_rows = concat (replicate 7 (''440.0,0.5,0.0'' @ [CHR 0x0A]))"

definition broken_rows :: string where
  "broken_rows = ''440.0,0.5,0.0'' @ [CHR 0x0A] @ ''880.0,abc,0.5'' @ [CHR 0x0A] @ ''660.0,0.3,0.5''"

definition broken_frame :: mainFrame where
  "broken_frame = (init_frame 0)\<lparr>filelist := Some [''broken.csv'']\<rparr>"

definition broken_files :: "string files" where
  "broken_files = [''broken.csv'' \<mapsto> csv_reader broken_rows]"

text \<open>The panel as created, with the phase spinner of channel 1 at 90 degrees.\<close>

definition quarter_turn :: AudioControl where
  "quarter_turn =
     (init_audio 0)\<lparr>phase := (phase (init_audio 0))[1 := FloatSpin_SetValue 90 (phase (init_audio 0) ! 1)]\<rparr>"

definition two_rows :: string where
  "two_rows = ''440.0,0.5,0.0'' @ [CHR 0x0A] @ ''880.0,0.25,0.5''"

text \<open>
  The decimal text of a number: the digits of its whole part, a point, and the digits
  after the point (at most 17 of them, and \<open>0\<close> if there are none).
\<close>

fun nat_digits :: "nat \<Rightarrow> string" where
  "nat_digits n = (if n < 10 then [char_of (48 + n)] else nat_digits (n div 10) @ [char_of (48 + n mod 10)])"

declare nat_digits.simps [simp del]

fun frac_digits :: "nat \<Rightarrow> rat \<Rightarrow> string" where
  "frac_digits k r =
     (if k = 0 \<or> r = 0 then []
      else char_of (48 + nat \<lfloor>r * 10\<rfloor>) # frac_digits (k - 1) (r * 10 - of_int \<lfloor>r * 10\<rfloor>))"

declare frac_digits.simps [simp del]

definition decimal_repr :: "rat \<Rightarrow> string" where
  "decimal_repr v =
     (let w = \<bar>v\<bar>; fd = frac_digits 17 (w - of_int \<lfloor>w\<rfloor>)
      in (if v < 0 then ''-'' else []) @ nat_digits (nat \<lfloor>w\<rfloor>) @ ''.'' @ (if fd = [] then ''0'' else fd))"






text \<open>A file of one row with the phase 0.015, and this phase as a float.\<close>

definition small_phase_row :: string where
  "small_phase_row = ''440.0,0.5,0.015''"

definition small_phase :: rat where
  "small_phase = double (15 / 1000)"

section \<open>Properties\<close>

subsection \<open>Rounding to a double\<close>

lemma bit_length_pos:
  assumes "0 < n"
  shows "1 \<le> bit_length n \<and> (2::int) ^ nat (bit_length n - 1) \<le> n \<and> n < 2 ^ nat (bit_length n)"
  using assms
proof (induction n rule: bit_length.induct)
  case (1 n)
  show ?case
  proof (cases "n div 2 \<le> 0")
    case True
    with "1.prems" have "n = 1" by auto
    then show ?thesis by (simp add: bit_length.simps)
  next
    case False
    then have h: "0 < n div 2" by simp
    from "1.IH" [OF _ h] "1.prems"
    have ih: "1 \<le> bit_length (n div 2)" "(2::int) ^ nat (bit_length (n div 2) - 1) \<le> n div 2"
      "n div 2 < 2 ^ nat (bit_length (n div 2))" by auto
    have b: "bit_length n = 1 + bit_length (n div 2)"
      using "1.prems" by (subst bit_length.simps) simp
    have n1: "nat (bit_length n - 1) = Suc (nat (bit_length (n div 2) - 1))"
      using ih(1) b by simp
    have n2: "nat (bit_length n) = Suc (nat (bit_length (n div 2)))"
      using ih(1) b by simp
    have "2 * (n div 2) \<le> n" "n < 2 * (n div 2) + 2" by presburger+
    with ih show ?thesis unfolding n1 n2 using b by auto
  qed
qed


lemma bit_length_rat:
  assumes "0 < n"
  shows "power_int 2 (bit_length n - 1) \<le> (of_int n :: rat)" "(of_int n :: rat) < power_int 2 (bit_length n)"
proof -
  from bit_length_pos [OF assms]
  have b: "1 \<le> bit_length n" "(2::int) ^ nat (bit_length n - 1) \<le> n" "n < 2 ^ nat (bit_length n)"
    by auto
  from b(2) have "(of_int ((2::int) ^ nat (bit_length n - 1)) :: rat) \<le> of_int n"
    by (simp only: of_int_le_iff)
  with b(1) show "power_int 2 (bit_length n - 1) \<le> (of_int n :: rat)"
    by (simp add: power_int_def)
  from b(3) have "(of_int n :: rat) < of_int ((2::int) ^ nat (bit_length n))"
    by (simp only: of_int_less_iff)
  with b(1) show "(of_int n :: rat) < power_int 2 (bit_length n)"
    by (simp add: power_int_def)
qed

lemma exponent_bounds:
  assumes "0 < x"
  shows "power_int 2 (exponent x) \<le> x" "x < power_int 2 (exponent x + 1)"
proof -
  obtain p q where pq: "quotient_of x = (p, q)" by (cases "quotient_of x")
  then have q: "0 < q" and x: "x = of_int p / of_int q"
    by (simp_all add: quotient_of_denom_pos quotient_of_div)
  from assms x q have p: "0 < p" by (simp add: zero_less_divide_iff)
  define e where "e = bit_length p - bit_length q"
  have qr: "(0::rat) < of_int q" using q by simp
  have up: "x < power_int 2 (e + 1)"
  proof -
    have "x * of_int q = of_int p" using x qr by simp
    also have "\<dots> < power_int 2 (bit_length p)" by (rule bit_length_rat [OF p])
    also have "\<dots> = power_int 2 (e + 1) * power_int 2 (bit_length q - 1)"
      by (simp add: e_def flip: power_int_add)
    also have "\<dots> \<le> power_int 2 (e + 1) * of_int q"
      by (intro mult_left_mono bit_length_rat [OF q]) simp
    finally show ?thesis using qr by simp
  qed
  have low: "power_int 2 (e - 1) \<le> x"
  proof -
    have "power_int 2 (e - 1) * (of_int q :: rat) \<le> power_int 2 (e - 1) * power_int 2 (bit_length q)"
      by (intro mult_left_mono less_imp_le [OF bit_length_rat(2) [OF q]]) simp
    also have "\<dots> = power_int 2 (bit_length p - 1)"
      by (simp add: e_def flip: power_int_add)
    also have "\<dots> \<le> of_int p" by (rule bit_length_rat [OF p])
    also have "\<dots> = x * of_int q" using x qr by simp
    finally show ?thesis using qr by simp
  qed
  have ex: "exponent x = (if power_int 2 e \<le> x then e else e - 1)"
    by (simp add: exponent_def pq e_def)
  show "power_int 2 (exponent x) \<le> x" using low by (simp add: ex)
  show "x < power_int 2 (exponent x + 1)" using up by (auto simp: ex)
qed

lemma round_even_of_int [simp]: "round_even (of_int n) = n"
  by (simp add: round_even_def)

lemma round_even_mono:
  assumes "q \<le> q'"
  shows "round_even q \<le> round_even q'"
proof -
  have f: "\<lfloor>q\<rfloor> \<le> \<lfloor>q'\<rfloor>" using assms by (rule floor_mono)
  have r: "\<lfloor>q\<rfloor> \<le> round_even q" "round_even q \<le> \<lfloor>q\<rfloor> + 1"
    "\<lfloor>q'\<rfloor> \<le> round_even q'"
    by (simp_all add: round_even_def Let_def)
  show ?thesis
  proof (cases "\<lfloor>q\<rfloor> = \<lfloor>q'\<rfloor>")
    case True
    with assms show ?thesis by (auto simp: round_even_def Let_def)
  next
    case False
    with f r show ?thesis by linarith
  qed
qed


lemma double_pos:
  assumes "0 < x"
  shows "double x = of_int (round_even (x / power_int 2 (exponent x - 52))) * power_int 2 (exponent x - 52)"
  using assms by (simp add: double_def Let_def)

lemma double_bounds:
  assumes "0 < x"
  shows "power_int 2 (exponent x) \<le> double x" "double x \<le> power_int 2 (exponent x + 1)"
proof -
  define u :: rat where "u = power_int 2 (exponent x - 52)"
  have u: "0 < u" by (simp add: u_def)
  have lo: "power_int 2 (exponent x) = of_int (2 ^ 52) * u"
    and hi: "power_int 2 (exponent x + 1) = of_int (2 ^ 53) * u"
    by (simp_all add: u_def power_int_diff power_int_add)
  from exponent_bounds [OF assms] have "of_int (2 ^ 52) * u \<le> x" "x \<le> of_int (2 ^ 53) * u"
    unfolding lo hi by simp_all
  with u have q: "of_int (2 ^ 52) \<le> x / u" "x / u \<le> of_int (2 ^ 53)"
    by (simp_all add: pos_le_divide_eq pos_divide_le_eq)
  have "round_even (of_int (2 ^ 52)) \<le> round_even (x / u)"
    "round_even (x / u) \<le> round_even (of_int (2 ^ 53))"
    by (rule round_even_mono [OF q(1)], rule round_even_mono [OF q(2)])
  then have "(of_int (2 ^ 52) :: rat) \<le> of_int (round_even (x / u))"
    "(of_int (round_even (x / u)) :: rat) \<le> of_int (2 ^ 53)"
    unfolding round_even_of_int by (simp_all only: of_int_le_iff)
  with u have "of_int (2 ^ 52) * u \<le> of_int (round_even (x / u)) * u"
    "of_int (round_even (x / u)) * u \<le> of_int (2 ^ 53) * u"
    by (simp_all add: mult_right_mono)
  then show "power_int 2 (exponent x) \<le> double x" "double x \<le> power_int 2 (exponent x + 1)"
    unfolding lo hi double_pos [OF assms] u_def by simp_all
qed

lemma double_mono_pos:
  assumes "0 < x" "x \<le> y"
  shows "double x \<le> double y"
proof -
  from assms have y: "0 < y" by simp
  have "power_int 2 (exponent x) \<le> x" by (rule exponent_bounds [OF assms(1)])
  also note assms(2)
  also have "y < power_int 2 (exponent y + 1)" by (rule exponent_bounds [OF y])
  finally have lt: "(power_int 2 (exponent x) :: rat) < power_int 2 (exponent y + 1)" .
  have le: "exponent x \<le> exponent y"
  proof (rule ccontr)
    assume "\<not> exponent x \<le> exponent y"
    then have "exponent y + 1 \<le> exponent x" by simp
    then have "(power_int 2 (exponent y + 1) :: rat) \<le> power_int 2 (exponent x)"
      by (intro power_int_increasing) simp_all
    with lt show False by simp
  qed
  show ?thesis
  proof (cases "exponent x = exponent y")
    case True
    define u :: rat where "u = power_int 2 (exponent y - 52)"
    have u: "0 < u" by (simp add: u_def)
    from assms(2) u have "x / u \<le> y / u" by (simp add: divide_right_mono)
    then have "round_even (x / u) \<le> round_even (y / u)" by (rule round_even_mono)
    then have "(of_int (round_even (x / u)) :: rat) * u \<le> of_int (round_even (y / u)) * u"
      using u by (simp add: mult_right_mono)
    then show ?thesis
      by (simp add: double_pos [OF assms(1)] double_pos [OF y] True u_def)
  next
    case False
    with le have "exponent x + 1 \<le> exponent y" by simp
    then have "(power_int 2 (exponent x + 1) :: rat) \<le> power_int 2 (exponent y)"
      by (intro power_int_increasing) simp_all
    with double_bounds(2) [OF assms(1)] double_bounds(1) [OF y] show ?thesis by linarith
  qed
qed

lemma double_0 [simp]: "double 0 = 0"
  by (simp add: double_def)

lemma double_mono:
  assumes "0 \<le> x" "x \<le> y"
  shows "double x \<le> double y"
proof (cases "x = 0")
  case True
  show ?thesis
  proof (cases "y = 0")
    case True
    with \<open>x = 0\<close> show ?thesis by simp
  next
    case False
    with assms True have y: "0 < y" by simp
    have "(0::rat) < power_int 2 (exponent y)" by simp
    also have "\<dots> \<le> double y" by (rule double_bounds(1) [OF y])
    finally show ?thesis using True by simp
  qed
next
  case False
  with assms(1) have "0 < x" by simp
  then show ?thesis using assms(2) by (rule double_mono_pos)
qed

lemma double_1: "double 1 = 1" by code_simp

lemma double_360: "double 360 = 360" by code_simp

subsection \<open>Running statements, rows and the loop\<close>

lemma run_append: "run (cs @ ds) a = (case run cs a of (Some e, a') \<Rightarrow> (Some e, a') | (None, a') \<Rightarrow> run ds a')"
  by (induction cs arbitrary: a) (auto split: prod.splits option.splits)

lemma Sine_overwritten:
  "Sine_play (Sine_setPhase v2 (Sine_setMul v1 (Sine_setFreq v0 (Sine_reset (Sine_stop f)))))
     = sine_of (v0, v1, v2)"
  by (cases f) (simp add: Sine_stop_def Sine_reset_def Sine_play_def
      Sine_setFreq_def Sine_setMul_def Sine_setPhase_def sine_of_def)

lemma set_row_ok:
  assumes "sizes a n" "idx < n" "row_values pyfloat f = Some vs"
  shows "set_row pyfloat idx f a = (None, put_row idx vs a)"
  using assms
  by (auto simp: set_row_def sizes_def row_values_def put_row_def set_freq_ctrl_def set_mul_ctrl_def
      set_phase_ctrl_def func_call_def func_call_float_def Sine_overwritten split: sum.splits prod.splits)

lemma set_row_None:
  assumes "set_row pyfloat idx f a = (None, a')"
  shows "\<exists>vs. row_values pyfloat f = Some vs \<and> a' = put_row idx vs a \<and> idx < length (freq a)
     \<and> idx < length (mul a) \<and> idx < length (phase a) \<and> idx < length (func a)"
  using assms
  by (auto simp: set_row_def row_values_def put_row_def set_freq_ctrl_def set_mul_ctrl_def
      set_phase_ctrl_def func_call_def func_call_float_def Sine_overwritten split: sum.splits prod.splits if_splits)


lemma set_row_Some:
  assumes "set_row pyfloat idx f a = (Some e, a')"
  shows "func a' = func a \<and> length (freq a') = length (freq a) \<and> length (mul a') = length (mul a)
     \<and> length (phase a') = length (phase a)
     \<and> (\<forall>j. j \<noteq> idx \<longrightarrow> channel a' j = channel a j)"
  using assms
  by (auto simp: set_row_def channel_def set_freq_ctrl_def set_mul_ctrl_def
      set_phase_ctrl_def func_call_def func_call_float_def split: sum.splits prod.splits if_splits)

lemma put_rows_Nil [simp]: "put_rows idx [] a = a"
  by (simp add: put_rows_def)

lemma put_rows_Cons [simp]: "put_rows idx (vs # vals) a = put_rows (Suc idx) vals (put_row idx vs a)"
  by (simp add: put_rows_def)

lemma set_rows_Nil [simp]: "set_rows pyfloat idx [] a = (None, a)"
  by (simp add: set_rows_def)

lemma set_rows_Cons:
  "set_rows pyfloat idx (f # fs) a =
     (case set_row pyfloat idx f a of
        (Some e, a') \<Rightarrow> (Some e, a')
      | (None, a') \<Rightarrow> set_rows pyfloat (Suc idx) fs a')"
  by (simp add: set_rows_def split: prod.splits option.splits)

lemma sizes_put_row [simp]: "sizes (put_row idx vs a) n = sizes a n"
  by (cases vs) (simp add: sizes_def put_row_def)

lemma set_rows_ok:
  assumes "sizes a n" "idx + length rows \<le> n" "map (row_values pyfloat) rows = map Some vals"
  shows "set_rows pyfloat idx rows a = (None, put_rows idx vals a)"
  using assms
proof (induction rows arbitrary: idx a vals)
  case Nil
  then show ?case by simp
next
  case (Cons f fs)
  from Cons.prems(3) obtain vs rest where vals: "vals = vs # rest"
    and f: "row_values pyfloat f = Some vs" and fs: "map (row_values pyfloat) fs = map Some rest"
    by (cases vals) auto
  from Cons.prems have "idx < n" by simp
  then have step: "set_row pyfloat idx f a = (None, put_row idx vs a)"
    using Cons.prems(1) f by (simp add: set_row_ok)
  have "set_rows pyfloat (Suc idx) fs (put_row idx vs a) = (None, put_rows (Suc idx) rest (put_row idx vs a))"
    using Cons.prems by (intro Cons.IH fs) simp_all
  with step vals show ?case by (simp add: set_rows_Cons)
qed

lemma set_rows_None:
  assumes "set_rows pyfloat idx rows a = (None, a')"
  shows "\<exists>vals. map (row_values pyfloat) rows = map Some vals \<and> a' = put_rows idx vals a"
  using assms
proof (induction rows arbitrary: idx a)
  case Nil
  then show ?case by simp
next
  case (Cons f fs)
  from Cons.prems obtain b where b: "set_row pyfloat idx f a = (None, b)"
    and rest: "set_rows pyfloat (Suc idx) fs b = (None, a')"
    by (auto simp: set_rows_Cons split: prod.splits option.splits)
  from set_row_None [OF b] obtain vs where vs: "row_values pyfloat f = Some vs" "b = put_row idx vs a"
    by blast
  from Cons.IH [OF rest] obtain vals where "map (row_values pyfloat) fs = map Some vals"
    "a' = put_rows (Suc idx) vals b" by blast
  with vs have "map (row_values pyfloat) (f # fs) = map Some (vs # vals) \<and> a' = put_rows idx (vs # vals) a"
    by simp
  then show ?case by blast
qed

lemma set_rows_Some:
  assumes "set_rows pyfloat idx rows a = (Some e, a')"
  shows "\<exists>k b. k < length rows \<and> set_rows pyfloat idx (take k rows) a = (None, b)
     \<and> set_row pyfloat (idx + k) (rows ! k) b = (Some e, a')"
  using assms
proof (induction rows arbitrary: idx a)
  case Nil
  then show ?case by simp
next
  case (Cons f fs)
  show ?case
  proof (cases "set_row pyfloat idx f a")
    case (Pair r b)
    show ?thesis
    proof (cases r)
      case None
      with Pair Cons.prems have "set_rows pyfloat (Suc idx) fs b = (Some e, a')"
        by (simp add: set_rows_Cons)
      from Cons.IH [OF this] obtain k c where k: "k < length fs"
        "set_rows pyfloat (Suc idx) (take k fs) b = (None, c)"
        "set_row pyfloat (Suc idx + k) (fs ! k) c = (Some e, a')" by blast
      then have "Suc k < length (f # fs) \<and> set_rows pyfloat idx (take (Suc k) (f # fs)) a = (None, c)
        \<and> set_row pyfloat (idx + Suc k) ((f # fs) ! Suc k) c = (Some e, a')"
        using Pair None by (simp add: set_rows_Cons)
      then show ?thesis by blast
    next
      case (Some e')
      with Pair Cons.prems have "set_row pyfloat idx f a = (Some e, a')"
        by (simp add: set_rows_Cons)
      then have "0 < length (f # fs) \<and> set_rows pyfloat idx (take 0 (f # fs)) a = (None, a)
        \<and> set_row pyfloat (idx + 0) ((f # fs) ! 0) a = (Some e, a')" by simp
      then show ?thesis by blast
    qed
  qed
qed


lemma length_put_row [simp]:
  "length (freq (put_row idx vs a)) = length (freq a)"
  "length (mul (put_row idx vs a)) = length (mul a)"
  "length (phase (put_row idx vs a)) = length (phase a)"
  "length (func (put_row idx vs a)) = length (func a)"
  by (cases vs; simp add: put_row_def)+

lemma length_put_rows [simp]:
  "length (freq (put_rows idx vals a)) = length (freq a)"
  "length (mul (put_rows idx vals a)) = length (mul a)"
  "length (phase (put_rows idx vals a)) = length (phase a)"
  "length (func (put_rows idx vals a)) = length (func a)"
  by (induction vals arbitrary: idx a; simp)+

lemma sizes_put_rows [simp]: "sizes (put_rows idx vals a) n = sizes a n"
  by (simp add: sizes_def)

lemma channel_put_row:
  assumes "sizes a n" "idx < n"
  shows "channel (put_row idx vs a) j =
     (if j = idx then row_channel vs (channel a j) else channel a j)"
  using assms by (cases vs) (auto simp: channel_def put_row_def sizes_def row_channel_def)

lemma channel_put_rows:
  assumes "sizes a n" "idx + length vals \<le> n"
  shows "channel (put_rows idx vals a) j =
     (if idx \<le> j \<and> j < idx + length vals
      then row_channel (vals ! (j - idx)) (channel a j)
      else channel a j)"
  using assms
proof (induction vals arbitrary: idx a)
  case Nil
  then show ?case by auto
next
  case (Cons vs rest)
  have s: "sizes (put_row idx vs a) n" using Cons.prems by simp
  have b: "Suc idx + length rest \<le> n" "idx < n" using Cons.prems by simp_all
  show ?case
  proof (cases "Suc idx \<le> j \<and> j < Suc idx + length rest")
    case True
    then have eq: "channel (put_row idx vs a) j = channel a j"
      using Cons.prems(1) b(2) by (simp add: channel_put_row)
    from True have "(vs # rest) ! (j - idx) = rest ! (j - Suc idx)"
      by (simp add: nth_Cons')
    with True eq show ?thesis
      by (simp add: Cons.IH [OF s b(1)])
  next
    case False
    then show ?thesis
      using Cons.prems(1) b(2) by (auto simp: Cons.IH [OF s b(1)] channel_put_row)
  qed
qed

lemma fields_put_row [simp]:
  "Lch (put_row idx vs a) = Lch a" "Rch (put_row idx vs a) = Rch a"
  "server (put_row idx vs a) = server a" "recording (put_row idx vs a) = recording a"
  "trig_tbl (put_row idx vs a) = trig_tbl a" "freq_idlist (put_row idx vs a) = freq_idlist a"
  "mul_idlist (put_row idx vs a) = mul_idlist a" "phase_idlist (put_row idx vs a) = phase_idlist a"
  by (cases vs; simp add: put_row_def)+

lemma fields_put_rows [simp]:
  "Lch (put_rows idx vals a) = Lch a" "Rch (put_rows idx vals a) = Rch a"
  "server (put_rows idx vals a) = server a" "recording (put_rows idx vals a) = recording a"
  "trig_tbl (put_rows idx vals a) = trig_tbl a" "freq_idlist (put_rows idx vals a) = freq_idlist a"
  "mul_idlist (put_rows idx vals a) = mul_idlist a" "phase_idlist (put_rows idx vals a) = phase_idlist a"
  by (induction vals arbitrary: idx a; simp)+

lemma set_rows_append:
  "set_rows pyfloat idx (xs @ ys) a =
     (case set_rows pyfloat idx xs a of
        (Some e, a') \<Rightarrow> (Some e, a')
      | (None, a') \<Rightarrow> set_rows pyfloat (idx + length xs) ys a')"
  by (simp add: set_rows_def enumerate_append_eq run_append split: prod.splits option.splits)

lemma set_row_beyond:
  assumes "length (freq a) \<le> idx"
  shows "set_row pyfloat idx f a = (Some IndexError, a)"
  using assms by (simp add: set_row_def set_freq_ctrl_def)

lemma func_put_row: "func (put_row idx vs a) = (func a)[idx := sine_of vs]"
  by (cases vs) (simp add: put_row_def)

lemma func_put_rows_nth:
  assumes "idx + length vals \<le> length (func a)"
  shows "func (put_rows idx vals a) ! j =
     (if idx \<le> j \<and> j < idx + length vals then sine_of (vals ! (j - idx)) else func a ! j)"
  using assms
proof (induction vals arbitrary: idx a)
  case Nil
  then show ?case by auto
next
  case (Cons vs rest)
  have b: "Suc idx + length rest \<le> length (func (put_row idx vs a))" using Cons.prems by simp
  show ?case
  proof (cases "Suc idx \<le> j \<and> j < Suc idx + length rest")
    case True
    then have "(vs # rest) ! (j - idx) = rest ! (j - Suc idx)"
      by (simp add: nth_Cons')
    with True show ?thesis by (simp add: Cons.IH [OF b])
  next
    case False
    show ?thesis
    proof (cases "j = idx")
      case True
      with Cons.prems Cons.IH [OF b] show ?thesis by (simp add: func_put_row)
    next
      case neq: False
      with False have "\<not> (idx \<le> j \<and> j < idx + length (vs # rest))" by auto
      with False neq Cons.IH [OF b] show ?thesis by (auto simp: func_put_row)
    qed
  qed
qed

lemma set_rows_None_fits:
  assumes "set_rows pyfloat idx rows a = (None, a')" "rows \<noteq> []"
  shows "idx + length rows \<le> length (freq a) \<and> idx + length rows \<le> length (mul a)
     \<and> idx + length rows \<le> length (phase a) \<and> idx + length rows \<le> length (func a)"
  using assms
proof (induction rows arbitrary: idx a)
  case Nil
  then show ?case by simp
next
  case (Cons f fs)
  from Cons.prems obtain b where b: "set_row pyfloat idx f a = (None, b)"
    and rest: "set_rows pyfloat (Suc idx) fs b = (None, a')"
    by (auto simp: set_rows_Cons split: prod.splits option.splits)
  from set_row_None [OF b] obtain vs where vs: "b = put_row idx vs a"
    and lt: "idx < length (freq a)" "idx < length (mul a)" "idx < length (phase a)" "idx < length (func a)"
    by blast
  show ?case
  proof (cases "fs = []")
    case True
    with lt show ?thesis by simp
  next
    case False
    from Cons.IH [OF rest False] vs show ?thesis by simp
  qed
qed

lemma set_audio_params_Some:
  assumes "set_audio_params pyfloat rows a = (Some e, a')"
  shows "\<exists>k b vals. k < length rows
     \<and> set_rows pyfloat 0 (take k rows) a = (None, b)
     \<and> set_row pyfloat k (rows ! k) b = (Some e, a')
     \<and> map (row_values pyfloat) (take k rows) = map Some vals
     \<and> (\<forall>i<k. channel a' i = channel b i \<and> func a' ! i = sine_of (vals ! i))"
proof -
  from assms have "set_rows pyfloat 0 rows a = (Some e, a')"
    by (auto simp: set_audio_params_def split: prod.splits option.splits)
  from set_rows_Some [OF this] obtain k b where k: "k < length rows"
    and ok: "set_rows pyfloat 0 (take k rows) a = (None, b)"
    and bad: "set_row pyfloat k (rows ! k) b = (Some e, a')" by auto
  from set_rows_None [OF ok] obtain vals where vals: "map (row_values pyfloat) (take k rows) = map Some vals"
    and b: "b = put_rows 0 vals a" by blast
  from vals k have len: "length vals = k"
    by (metis length_map length_take min.absorb2 less_imp_le_nat)
  have keep: "\<forall>i<k. channel a' i = channel b i" "func a' = func b"
    using set_row_Some [OF bad] by auto
  have "\<forall>i<k. func b ! i = sine_of (vals ! i)"
  proof (intro allI impI)
    fix i assume i: "i < k"
    then have "take k rows \<noteq> []" using k by auto
    from set_rows_None_fits [OF ok this] k have "0 + length vals \<le> length (func a)"
      using len by simp
    from func_put_rows_nth [OF this, of i] i len show "func b ! i = sine_of (vals ! i)"
      by (simp add: b)
  qed
  with keep k ok bad vals show ?thesis by auto
qed

lemma set_audio_params_overflow:
  assumes "sizes a CH_CNT" "CH_CNT < length funclist"
      and "map (row_values pyfloat) (take CH_CNT funclist) = map Some vals"
  shows "set_audio_params pyfloat funclist a = (Some IndexError, put_rows 0 vals a)"
proof -
  define xs where "xs = take CH_CNT funclist"
  define r where "r = funclist ! CH_CNT"
  define ys where "ys = drop (Suc CH_CNT) funclist"
  have split: "funclist = xs @ r # ys"
    using assms(2) by (simp add: xs_def r_def ys_def id_take_nth_drop [symmetric])
  have len: "length xs = CH_CNT" using assms(2) by (simp add: xs_def)
  have ok: "set_rows pyfloat 0 xs a = (None, put_rows 0 vals a)"
    using assms(1) len assms(3) by (intro set_rows_ok [where n = CH_CNT]) (simp_all add: xs_def)
  have "length (freq (put_rows 0 vals a)) \<le> CH_CNT" using assms(1) by (simp add: sizes_def)
  then have bad: "set_row pyfloat CH_CNT r (put_rows 0 vals a) = (Some IndexError, put_rows 0 vals a)"
    by (rule set_row_beyond)
  have "set_rows pyfloat 0 funclist a = (Some IndexError, put_rows 0 vals a)"
    by (simp add: split set_rows_append ok len set_rows_Cons bad)
  then show ?thesis by (simp add: set_audio_params_def)
qed

lemma sizes_init_audio: "sizes (init_audio wid) CH_CNT"
  by (simp add: sizes_def init_audio_def)

lemma seven_rows_read: "csv_reader seven_rows = replicate 7 [''440.0'', ''0.5'', ''0.0'']"
  by code_simp

lemma decimal_examples:
  "decimal_float ''440.0'' = Some 440" "decimal_float ''880.0'' = Some 880"
  "decimal_float ''0.5'' = Some (1 / 2)" "decimal_float ''0.25'' = Some (1 / 4)"
  "decimal_float ''0.0'' = Some 0" "decimal_float ''abc'' = None"
  by code_simp+

lemma row_values_440: "row_values decimal_float [''440.0'', ''0.5'', ''0.0''] = Some (440, 1 / 2, 0)"
  by (simp add: row_values_def float_field_def decimal_examples)

lemma seven_rows_values:
  "map (row_values decimal_float) (take CH_CNT (csv_reader seven_rows)) = map Some (replicate 6 (440, 1 / 2, 0))"
  by (simp add: seven_rows_read CH_CNT_def row_values_440)

subsection \<open>C1: a file with more rows than channels\<close>

text \<open>
  C1. The claim is that a file with more rows than \<open>CH_CNT\<close> is applied up to the
  channel count and the rest is ignored. The loop of \<open>set_audio_params\<close> indexes the
  control lists with the row number, so this holds in part: with \<open>CH_CNT\<close> good rows
  first, these rows are applied to the channels 0 to \<open>CH_CNT - 1\<close> in order (controls
  and oscillators), and row number \<open>CH_CNT\<close> then raises IndexError; the call does not
  succeed and \<open>reset_phase\<close> is not reached.
\<close>

theorem extra_rows_raise_IndexError:
  assumes "sizes a CH_CNT" and "CH_CNT < length funclist"
      and "map (row_values pyfloat) (take CH_CNT funclist) = map Some vals"
  shows "fst (set_audio_params pyfloat funclist a) = Some IndexError
     \<and> (\<forall>i<CH_CNT. channel (snd (set_audio_params pyfloat funclist a)) i =
                row_channel (vals ! i) (channel a i))"
proof -
  have len: "length vals = CH_CNT"
    using assms(2,3) by (metis length_map length_take min.absorb2 less_imp_le_nat)
  have "\<forall>i<CH_CNT. channel (put_rows 0 vals a) i = row_channel (vals ! i) (channel a i)"
    using assms(1) len by (simp add: channel_put_rows [where n = CH_CNT])
  then show ?thesis
    by (simp add: set_audio_params_overflow [OF assms])
qed

theorem extra_rows_raise_IndexError_witness:
  "sizes (init_audio 0) CH_CNT \<and> CH_CNT < length (csv_reader seven_rows)
   \<and> map (row_values decimal_float) (take CH_CNT (csv_reader seven_rows))
       = map Some (replicate 6 (440, 1 / 2, 0))
   \<and> fst (set_audio_params decimal_float (csv_reader seven_rows) (init_audio 0)) = Some IndexError
   \<and> map (channel (snd (set_audio_params decimal_float (csv_reader seven_rows) (init_audio 0))))
         [0, 1, 2, 3, 4, 5]
       = map (\<lambda>i. row_channel (440, 1 / 2, 0) (channel (init_audio 0) i)) [0, 1, 2, 3, 4, 5]"
proof -
  have h2: "CH_CNT < length (csv_reader seven_rows)" by (simp add: seven_rows_read CH_CNT_def)
  have "fst (set_audio_params decimal_float (csv_reader seven_rows) (init_audio 0)) = Some IndexError
    \<and> (\<forall>i<CH_CNT. channel (snd (set_audio_params decimal_float (csv_reader seven_rows) (init_audio 0))) i =
          row_channel (replicate 6 (440, 1 / 2, 0) ! i) (channel (init_audio 0) i))"
    by (rule extra_rows_raise_IndexError [OF sizes_init_audio [of 0] h2 seven_rows_values])
  then show ?thesis
    using h2 sizes_init_audio [of 0] seven_rows_values
    by (simp add: CH_CNT_def)
qed

text \<open>The load of the seven-row file into the panel as created does not succeed.\<close>

theorem extra_rows_do_not_succeed:
  "fst (set_audio_params decimal_float (csv_reader seven_rows) (init_audio 0)) \<noteq> None"
proof -
  have "CH_CNT < length (csv_reader seven_rows)" by (simp add: seven_rows_read CH_CNT_def)
  from set_audio_params_overflow [OF sizes_init_audio [of 0] this seven_rows_values] show ?thesis by simp
qed

lemma broken_rows_read:
  "csv_reader broken_rows = [[''440.0'', ''0.5'', ''0.0''], [''880.0'', ''abc'', ''0.5''], [''660.0'', ''0.3'', ''0.5'']]"
  by code_simp

lemma start_next_file_Cons:
  assumes "filelist m = Some (fname # rest)" "fs fname = Some rows"
  shows "start_next_file pyfloat fs m =
     (fst (set_audio_params pyfloat rows (audio m)),
      m\<lparr>filelist := Some rest, audio := snd (set_audio_params pyfloat rows (audio m))\<rparr>)"
  using assms by (simp add: start_next_file_def load_file_def split: prod.splits)

subsection \<open>C9: a load that fails partway\<close>

text \<open>
  C9. When the load of a file raises in row \<open>k\<close>, the rows before it had been applied
  (the loop over them ended without an exception, in a state \<open>b\<close>), the exception is the
  one that row \<open>k\<close> raises in \<open>b\<close> and it leaves \<open>start_next_file\<close> as it is, and the
  channels 0 to \<open>k - 1\<close> are afterwards exactly as these rows left them, their
  oscillators holding the values of their rows: nothing is rolled back.
\<close>

theorem failed_load_keeps_applied_rows:
  assumes "filelist m = Some (fname # rest)" and "fs fname = Some rows"
      and "start_next_file pyfloat fs m = (Some e, m')"
  shows "\<exists>k b vals. k < length rows
     \<and> set_rows pyfloat 0 (take k rows) (audio m) = (None, b)
     \<and> set_row pyfloat k (rows ! k) b = (Some e, audio m')
     \<and> map (row_values pyfloat) (take k rows) = map Some vals
     \<and> (\<forall>i<k. channel (audio m') i = channel b i \<and> func (audio m') ! i = sine_of (vals ! i))"
proof -
  from assms have "set_audio_params pyfloat rows (audio m) = (Some e, audio m')"
    by (auto simp: start_next_file_Cons prod_eq_iff)
  then show ?thesis by (rule set_audio_params_Some)
qed

lemma broken_load_raises:
  "fst (start_next_file decimal_float broken_files broken_frame) = Some ValueError"
  by (simp add: start_next_file_def load_file_def broken_files_def broken_frame_def
      broken_rows_read set_audio_params_def set_rows_def set_row_def set_freq_ctrl_def
      set_mul_ctrl_def set_phase_ctrl_def func_call_def func_call_float_def float_field_def
      decimal_examples init_frame_def init_audio_def CH_CNT_def
      split: prod.splits)


lemma broken_load_channel_0:
  "func (audio (snd (start_next_file decimal_float broken_files broken_frame))) ! 0 = sine_of (440, 1 / 2, 0)"
  by (simp add: start_next_file_def load_file_def broken_files_def broken_frame_def
      broken_rows_read set_audio_params_def set_rows_def set_row_def set_freq_ctrl_def
      set_mul_ctrl_def set_phase_ctrl_def func_call_def func_call_float_def float_field_def
      decimal_examples init_frame_def init_audio_def CH_CNT_def Sine_overwritten
      split: prod.splits)

theorem failed_load_keeps_applied_rows_witness:
  "filelist broken_frame = Some [''broken.csv'']
   \<and> broken_files ''broken.csv'' = Some (csv_reader broken_rows)
   \<and> fst (start_next_file decimal_float broken_files broken_frame) = Some ValueError
   \<and> func (audio (snd (start_next_file decimal_float broken_files broken_frame))) ! 0
       = sine_of (440, 1 / 2, 0)
   \<and> (\<exists>k b vals. k < length (csv_reader broken_rows)
     \<and> set_rows decimal_float 0 (take k (csv_reader broken_rows)) (audio broken_frame) = (None, b)
     \<and> set_row decimal_float k (csv_reader broken_rows ! k) b
         = (Some ValueError, audio (snd (start_next_file decimal_float broken_files broken_frame)))
     \<and> map (row_values decimal_float) (take k (csv_reader broken_rows)) = map Some vals
     \<and> (\<forall>i<k. channel (audio (snd (start_next_file decimal_float broken_files broken_frame))) i = channel b i
            \<and> func (audio (snd (start_next_file decimal_float broken_files broken_frame))) ! i
                = sine_of (vals ! i)))"
proof -
  have h1: "filelist broken_frame = Some [''broken.csv'']" by (simp add: broken_frame_def)
  have h2: "broken_files ''broken.csv'' = Some (csv_reader broken_rows)" by (simp add: broken_files_def)
  have h3: "start_next_file decimal_float broken_files broken_frame
     = (Some ValueError, snd (start_next_file decimal_float broken_files broken_frame))"
    using broken_load_raises by (simp add: prod_eq_iff)
  from failed_load_keeps_applied_rows [OF h1 h2 h3] h1 h2 broken_load_raises broken_load_channel_0
  show ?thesis by blast
qed

subsection \<open>Recording to a WAV file\<close>

lemma record_wav_eq:
  "record_wav filename a =
     (\<not> recording a,
      a\<lparr>server := server a @ [if recording a then recstop else recstart filename],
        recording := \<not> recording a\<rparr>)"
  by (simp add: record_wav_def)

lemma upt_0_Suc: "[0..<Suc n] = 0 # map Suc [0..<n]"
  by (simp add: upt_conv_Cons map_Suc_upt del: upt_Suc)

lemma record_calls_eq:
  "record_calls filename n a =
     (map (\<lambda>k. even k \<noteq> recording a) [0..<n],
      a\<lparr>server := server a @ map (\<lambda>k. if even k \<noteq> recording a then recstart filename else recstop) [0..<n],
        recording := (odd n \<noteq> recording a)\<rparr>)"
proof (induction n arbitrary: a)
  case 0
  show ?case by simp
next
  case (Suc n)
  show ?case
    by (cases "recording a")
       (simp_all only: record_calls.simps record_wav_eq Suc.IH upt_0_Suc,
        simp_all add: comp_def)
qed

text \<open>
  C10. A call of \<open>record\<close> flips the flag and returns its new value; it calls
  \<open>recstart\<close> when it returns True and \<open>recstop\<close> when it returns False. From a
  state that is not recording, call number \<open>k\<close> (counting from 0) of \<open>n\<close> calls in a row
  returns True exactly for even \<open>k\<close>, the calls made on the server are \<open>recstart\<close> and
  \<open>recstop\<close> in turn, and the flag is set at the end exactly when the last call was a
  \<open>recstart\<close>.
\<close>

theorem record_alternates:
  "fst (record_wav filename a) = (\<not> recording a)
   \<and> recording (snd (record_wav filename a)) = fst (record_wav filename a)
   \<and> server (snd (record_wav filename a))
       = server a @ [if fst (record_wav filename a) then recstart filename else recstop]
   \<and> (\<not> recording a \<longrightarrow>
        fst (record_calls filename n a) = map even [0..<n]
        \<and> server (snd (record_calls filename n a))
            = server a @ map (\<lambda>k. if even k then recstart filename else recstop) [0..<n]
        \<and> recording (snd (record_calls filename n a)) = odd n)"
  by (simp add: record_wav_eq record_calls_eq)

theorem record_alternates_witness:
  "\<not> recording (init_audio 0)
   \<and> fst (record_calls ''record.wav'' 3 (init_audio 0)) = [True, False, True]
   \<and> server (snd (record_calls ''record.wav'' 3 (init_audio 0)))
       = [boot, recstart ''record.wav'', recstop, recstart ''record.wav'']
   \<and> recording (snd (record_calls ''record.wav'' 3 (init_audio 0)))"
proof -
  have h: "\<not> recording (init_audio 0)" by (simp add: init_audio_def)
  have u: "[0..<3] = [0, 1, 2]" by code_simp
  from record_alternates [of "''record.wav''" "init_audio 0" 3] h
  show ?thesis by (simp add: u) (simp add: init_audio_def)
qed

subsection \<open>Phases\<close>

lemma reset_phase_fields [simp]:
  "phase (reset_phase a) = phase a" "freq (reset_phase a) = freq a" "mul (reset_phase a) = mul a"
  "Lch (reset_phase a) = Lch a" "Rch (reset_phase a) = Rch a" "server (reset_phase a) = server a"
  "recording (reset_phase a) = recording a" "trig_tbl (reset_phase a) = trig_tbl a"
  "freq_idlist (reset_phase a) = freq_idlist a" "mul_idlist (reset_phase a) = mul_idlist a"
  "phase_idlist (reset_phase a) = phase_idlist a"
  by (simp_all add: reset_phase_def)

lemma length_func_reset_phase [simp]: "length (func (reset_phase a)) = length (func a)"
  by (simp add: reset_phase_def)

lemma func_reset_phase_nth:
  assumes "i < length (func a)"
  shows "func (reset_phase a) ! i =
     (if i < length (phase a)
      then Sine_setPhase (fdiv (fs_value (phase a ! i)) 360) (Sine_reset (func a ! i))
      else func a ! i)"
  using assms by (simp add: reset_phase_def nth_append min_def)

lemma reset_phase_twice: "reset_phase (reset_phase a) = reset_phase a"
proof -
  have "func (reset_phase (reset_phase a)) = func (reset_phase a)"
    by (rule nth_equalityI)
       (simp_all add: func_reset_phase_nth Sine_setPhase_def Sine_reset_def)
  moreover have "reset_phase (reset_phase a) = (reset_phase a)\<lparr>func := func (reset_phase (reset_phase a))\<rparr>"
    by (simp add: reset_phase_def)
  ultimately show ?thesis by simp
qed

text \<open>
  C7. \<open>reset_phase\<close> puts the phase accumulator of every channel back to 0 and gives
  the oscillator the value of the channel's phase spinner divided by 360; it leaves
  the spinners alone, and a second call right after the first changes nothing, so the
  channels are aligned after two calls as they are after one.
\<close>

theorem reset_phase_idempotent:
  "reset_phase (reset_phase a) = reset_phase a
   \<and> phase (reset_phase a) = phase a
   \<and> (\<forall>i. i < length (func a) \<and> i < length (phase a) \<longrightarrow>
          pointer (func (reset_phase a) ! i) = 0
          \<and> sine_phase (func (reset_phase a) ! i) = fdiv (fs_value (phase a ! i)) 360)"
  by (simp add: reset_phase_twice func_reset_phase_nth Sine_setPhase_def Sine_reset_def)

theorem reset_phase_idempotent_witness:
  "1 < length (func quarter_turn) \<and> 1 < length (phase quarter_turn)
   \<and> pointer (func (reset_phase quarter_turn) ! 1) = 0
   \<and> sine_phase (func (reset_phase quarter_turn) ! 1) = 1 / 4
   \<and> reset_phase (reset_phase quarter_turn) = reset_phase quarter_turn"
proof -
  have h: "1 < length (func quarter_turn) \<and> 1 < length (phase quarter_turn)"
    by (simp add: quarter_turn_def init_audio_def CH_CNT_def)
  have v: "fs_value (phase quarter_turn ! 1) = 90"
    by (simp add: quarter_turn_def init_audio_def CH_CNT_def FloatSpin_SetValue_def)
  have q: "fdiv 90 360 = 1 / 4" by code_simp
  have "reset_phase (reset_phase quarter_turn) = reset_phase quarter_turn
    \<and> pointer (func (reset_phase quarter_turn) ! 1) = 0
    \<and> sine_phase (func (reset_phase quarter_turn) ! 1) = fdiv (fs_value (phase quarter_turn ! 1)) 360"
    using reset_phase_idempotent [of quarter_turn] h by blast
  with h v q show ?thesis by simp
qed

subsection \<open>The display loop\<close>

lemma toggle_graph_running:
  "graphing m = False \<Longrightarrow>
     toggle_graph m = m\<lparr>graphing := True, audio := (audio m)\<lparr>trig_tbl := True\<rparr>, grphButton := ''Pause Graph''\<rparr>"
  by (simp add: toggle_graph_def start_buffer_def)

lemma toggle_graph_paused:
  "graphing m = True \<Longrightarrow>
     toggle_graph m = m\<lparr>graphing := False, audio := (audio m)\<lparr>trig_tbl := False\<rparr>, grphButton := ''Start Graph''\<rparr>"
  by (simp add: toggle_graph_def start_buffer_def)

lemma init_frame_paused: "graphing (init_frame wid) = False" "trig_tbl (audio (init_frame wid)) = False"
  by (simp_all add: init_frame_def init_audio_def)

text \<open>
  C5. The claim is that two calls of \<open>toggle_graph\<close> from \<open>graphing == False\<close> leave the
  sample buffer disarmed, and that this is the state of the program at startup. The first
  part holds: the first call arms the buffer, the second disarms it, and the loop is
  paused again. The second part does not: the constructor sets \<open>graphing = False\<close> and
  then calls \<open>toggle_graph\<close> itself (lines 273-274), so the program starts running, with
  the buffer armed. The buffer is disarmed before that call only.
\<close>

theorem toggle_graph_twice:
  assumes "graphing m = False"
  shows "graphing (toggle_graph m) = True \<and> trig_tbl (audio (toggle_graph m)) = True
     \<and> graphing (toggle_graph (toggle_graph m)) = False
     \<and> trig_tbl (audio (toggle_graph (toggle_graph m))) = False
     \<and> grphButton (toggle_graph (toggle_graph m)) = ''Start Graph''
     \<and> graphing (mainFrame_init wid) = True \<and> trig_tbl (audio (mainFrame_init wid)) = True
     \<and> mainFrame_init wid = toggle_graph (init_frame wid)
     \<and> graphing (init_frame wid) = False \<and> trig_tbl (audio (init_frame wid)) = False"
  using assms
  by (simp add: toggle_graph_running toggle_graph_paused mainFrame_init_def init_frame_paused)

theorem toggle_graph_twice_witness:
  "graphing (init_frame 0) = False
   \<and> trig_tbl (audio (toggle_graph (toggle_graph (init_frame 0)))) = False
   \<and> graphing (toggle_graph (toggle_graph (init_frame 0))) = False
   \<and> trig_tbl (audio (mainFrame_init 0)) = True"
  using toggle_graph_twice [of "init_frame 0" 0] by (simp add: init_frame_paused)

text \<open>
  The buffer after the two calls, from the frame as line 273 leaves it, is not in the
  state it has when the constructor has ended.
\<close>

theorem startup_is_armed:
  "graphing (init_frame 0) = False
   \<and> trig_tbl (audio (toggle_graph (toggle_graph (init_frame 0)))) \<noteq> trig_tbl (audio (mainFrame_init 0))"
  by (simp add: toggle_graph_running toggle_graph_paused mainFrame_init_def init_frame_paused)

subsection \<open>What every handler keeps\<close>

lemma run_keeps:
  assumes "\<And>c b e b'. c \<in> set cs \<Longrightarrow> P b \<Longrightarrow> c b = (e, b') \<Longrightarrow> P b'" and "P a"
  shows "P (snd (run cs a))"
  using assms
proof (induction cs arbitrary: a)
  case Nil
  then show ?case by simp
next
  case (Cons c cs)
  obtain e b where cb: "c a = (e, b)" by (cases "c a")
  with Cons.prems have b: "P b" by (meson list.set_intros(1))
  show ?case
  proof (cases e)
    case None
    have "P (snd (run cs b))"
      by (rule Cons.IH) (use Cons.prems(1) b in \<open>auto\<close>)
    with cb None show ?thesis by simp
  next
    case (Some x)
    with cb b show ?thesis by simp
  qed
qed

lemma FloatSpin_SetValue_fields [simp]:
  "fs_Id (FloatSpin_SetValue v c) = fs_Id c" "min_val (FloatSpin_SetValue v c) = min_val c"
  "max_val (FloatSpin_SetValue v c) = max_val c"
  by (simp_all add: FloatSpin_SetValue_def)

lemma Slider_SetValue_fields [simp]:
  "sl_Id (Slider_SetValue w c) = sl_Id c" "minValue (Slider_SetValue w c) = minValue c"
  "maxValue (Slider_SetValue w c) = maxValue c"
  by (simp_all add: Slider_SetValue_def)

lemma map_update_same:
  assumes "i < length xs \<Longrightarrow> g y = g (xs ! i)"
  shows "map g (xs[i := y]) = map g xs"
proof (cases "i < length xs")
  case True
  with assms show ?thesis by (simp add: map_update list_update_same_conv)
next
  case False
  then have "xs[i := y] = xs" by (intro list_update_beyond) simp
  then show ?thesis by simp
qed

lemma list_all_update:
  assumes "list_all P xs" "i < length xs \<Longrightarrow> P y"
  shows "list_all P (xs[i := y])"
proof (cases "i < length xs")
  case True
  with assms show ?thesis
    by (auto simp: list_all_iff dest: set_update_subset_insert [THEN subsetD])
next
  case False
  then have "xs[i := y] = xs" by (intro list_update_beyond) simp
  with assms(1) show ?thesis by simp
qed

lemma list_all_nth: "list_all P xs \<Longrightarrow> i < length xs \<Longrightarrow> P (xs ! i)"
  by (simp add: list_all_iff)

lemma well_formed_freq_update:
  assumes "well_formed a"
  shows "well_formed (a\<lparr>freq := (freq a)[i := FloatSpin_SetValue v (freq a ! i)]\<rparr>)"
  using assms
  by (auto simp: well_formed_def sizes_def map_update_same intro!: list_all_update dest: list_all_nth)

lemma well_formed_mul_update:
  assumes "well_formed a"
  shows "well_formed (a\<lparr>mul := (mul a)[i := Slider_SetValue w (mul a ! i)]\<rparr>)"
  using assms
  by (auto simp: well_formed_def sizes_def map_update_same intro!: list_all_update dest: list_all_nth)

lemma well_formed_phase_update:
  assumes "well_formed a"
  shows "well_formed (a\<lparr>phase := (phase a)[i := FloatSpin_SetValue v (phase a ! i)]\<rparr>)"
  using assms
  by (auto simp: well_formed_def sizes_def map_update_same intro!: list_all_update dest: list_all_nth)

lemma well_formed_func_update:
  assumes "well_formed a"
  shows "well_formed (a\<lparr>func := (func a)[i := f]\<rparr>)"
  using assms by (auto simp: well_formed_def sizes_def)

lemma well_formed_reset_phase: "well_formed a \<Longrightarrow> well_formed (reset_phase a)"
  by (auto simp: well_formed_def sizes_def)

lemma well_formed_set_row:
  assumes "well_formed a"
  shows "well_formed (snd (set_row pyfloat idx f a))"
  unfolding set_row_def
proof (rule run_keeps [where P = well_formed])
  show "well_formed a" by fact
next
  fix c b e b'
  assume "c \<in> set [set_freq_ctrl pyfloat idx f, set_mul_ctrl pyfloat idx f,
      set_phase_ctrl pyfloat idx f, func_call idx Sine_stop, func_call idx Sine_reset,
      func_call_float pyfloat idx f 0 Sine_setFreq, func_call_float pyfloat idx f 1 Sine_setMul,
      func_call_float pyfloat idx f 2 Sine_setPhase, func_call idx Sine_play]"
    and "well_formed b" and "c b = (e, b')"
  then show "well_formed b'"
    by (auto simp: set_freq_ctrl_def set_mul_ctrl_def set_phase_ctrl_def func_call_def
        func_call_float_def well_formed_freq_update well_formed_mul_update
        well_formed_phase_update well_formed_func_update split: if_splits sum.splits)
qed

lemma well_formed_set_rows:
  assumes "well_formed a"
  shows "well_formed (snd (set_rows pyfloat idx funclist a))"
  unfolding set_rows_def
proof (rule run_keeps [where P = well_formed])
  show "well_formed a" by fact
next
  fix c b e b'
  assume "c \<in> set (map (\<lambda>(i, f). set_row pyfloat i f) (List.enumerate idx funclist))"
    and b: "well_formed b" and c: "c b = (e, b')"
  then obtain i f where "c = set_row pyfloat i f" by auto
  with well_formed_set_row [OF b, of pyfloat i f] c show "well_formed b'" by simp
qed

lemma well_formed_set_audio_params:
  assumes "well_formed a"
  shows "well_formed (snd (set_audio_params pyfloat funclist a))"
  using well_formed_set_rows [OF assms, of pyfloat 0 funclist]
  by (auto simp: set_audio_params_def well_formed_reset_phase split: prod.splits option.splits)


lemma list_index_nth:
  assumes "distinct xs" "i < length xs"
  shows "list_index xs (xs ! i) = Some i"
  using assms
proof (induction xs arbitrary: i)
  case Nil
  then show ?case by simp
next
  case (Cons y ys)
  show ?case
  proof (cases i)
    case 0
    then show ?thesis by simp
  next
    case (Suc j)
    with Cons.prems have "ys ! j \<noteq> y" "list_index ys (ys ! j) = Some j"
      by (auto simp: Cons.IH)
    with Suc show ?thesis by auto
  qed
qed

lemma find_by_key:
  assumes "distinct (map g xs)" "i < length xs"
  shows "find (\<lambda>c. g c = g (xs ! i)) xs = Some (xs ! i)"
  using assms
proof (induction xs arbitrary: i)
  case Nil
  then show ?case by simp
next
  case (Cons y ys)
  show ?case
  proof (cases i)
    case 0
    then show ?thesis by simp
  next
    case (Suc j)
    with Cons.prems have "g y \<noteq> g (ys ! j)" "find (\<lambda>c. g c = g (ys ! j)) ys = Some (ys ! j)"
      by (auto simp: Cons.IH)
    with Suc show ?thesis by simp
  qed
qed

lemma mspin_at:
  assumes "well_formed a" "i < CH_CNT"
  shows "mspin (sl_Id (mul a ! i)) a =
     (None, a\<lparr>func := (func a)[i := Sine_setMul (fdiv (of_int (sl_value (mul a ! i))) 100) (func a ! i)]\<rparr>)"
proof -
  from assms have d: "distinct (map sl_Id (mul a))" "i < length (mul a)" "i < length (func a)"
    "mul_idlist a = map sl_Id (mul a)"
    by (auto simp: well_formed_def sizes_def)
  from d have "list_index (mul_idlist a) (sl_Id (mul a ! i)) = Some i"
    using list_index_nth [of "map sl_Id (mul a)" i] by simp
  moreover have "find (\<lambda>c. sl_Id c = sl_Id (mul a ! i)) (mul a) = Some (mul a ! i)"
    using d by (intro find_by_key)
  ultimately show ?thesis using d by (simp add: mspin_def)
qed

lemma fspin_at:
  assumes "well_formed a" "i < CH_CNT"
  shows "fspin (fs_Id (freq a ! i)) a =
     (None, a\<lparr>func := (func a)[i := Sine_setFreq (fs_value (freq a ! i)) (func a ! i)]\<rparr>)"
proof -
  from assms have d: "distinct (map fs_Id (freq a))" "i < length (freq a)" "i < length (func a)"
    "freq_idlist a = map fs_Id (freq a)"
    by (auto simp: well_formed_def sizes_def)
  from d have "list_index (freq_idlist a) (fs_Id (freq a ! i)) = Some i"
    using list_index_nth [of "map fs_Id (freq a)" i] by simp
  moreover have "find (\<lambda>c. fs_Id c = fs_Id (freq a ! i)) (freq a) = Some (freq a ! i)"
    using d by (intro find_by_key)
  ultimately show ?thesis using d by (simp add: fspin_def)
qed

lemma well_formed_mspin: "well_formed a \<Longrightarrow> well_formed (snd (mspin ID a))"
  by (auto simp: mspin_def well_formed_func_update split: option.splits)

lemma well_formed_fspin: "well_formed a \<Longrightarrow> well_formed (snd (fspin ID a))"
  by (auto simp: fspin_def well_formed_func_update split: option.splits)

lemma well_formed_init_audio: "well_formed (init_audio wid)"
proof -
  have u: "[0..<6] = [0, 1, 2, 3, 4, 5]" by code_simp
  show ?thesis
    by (simp add: well_formed_def sizes_def init_audio_def CH_CNT_def is_right_def u)
qed

lemma reachable_well_formed: "reachable a \<Longrightarrow> well_formed a"
proof (induction rule: reachable.induct)
  case (created wid)
  show ?case by (rule well_formed_init_audio)
next
  case (buffer a enable)
  then show ?case by (auto simp: start_buffer_def well_formed_def sizes_def)
next
  case (engine a enable)
  then show ?case by (auto simp: enable_server_def well_formed_def sizes_def)
next
  case (wav a filename)
  then show ?case by (auto simp: record_wav_def well_formed_def sizes_def)
next
  case (params a pyfloat funclist)
  then show ?case by (simp add: well_formed_set_audio_params)
next
  case (freq_moved a i v)
  then show ?case by (simp add: move_freq_def well_formed_fspin well_formed_freq_update)
next
  case (mul_moved a i w)
  then show ?case by (simp add: move_mul_def well_formed_mspin well_formed_mul_update)
next
  case (phase_moved a i v)
  then show ?case
    by (simp add: move_phase_def phspin_def well_formed_reset_phase well_formed_phase_update)
qed

lemma move_mul_at:
  assumes "well_formed a" "i < CH_CNT" "0 \<le> w" "w \<le> 105"
  shows "move_mul i w a =
     (None, a\<lparr>mul := (mul a)[i := (mul a ! i)\<lparr>sl_value := w\<rparr>],
               func := (func a)[i := Sine_setMul (fdiv (of_int w) 100) (func a ! i)]\<rparr>)"
proof -
  let ?b = "a\<lparr>mul := (mul a)[i := Slider_SetValue w (mul a ! i)]\<rparr>"
  have wf: "well_formed ?b" using assms(1) by (rule well_formed_mul_update)
  from assms have i: "i < length (mul a)" and r: "minValue (mul a ! i) = 0 \<and> maxValue (mul a ! i) = 105"
    by (auto simp: well_formed_def sizes_def dest: list_all_nth)
  with assms have v: "Slider_SetValue w (mul a ! i) = (mul a ! i)\<lparr>sl_value := w\<rparr>"
    by (simp add: Slider_SetValue_def)
  from i have "sl_Id (mul ?b ! i) = sl_Id (mul a ! i)" by simp
  with mspin_at [OF wf assms(2)] i v show ?thesis by (simp add: move_mul_def)
qed

lemma move_phase_at:
  assumes "well_formed a" "i < CH_CNT" "0 \<le> d" "d \<le> 360"
  shows "sine_phase (func (move_phase i d a) ! i) = fdiv d 360
     \<and> fs_value (phase (move_phase i d a) ! i) = d"
proof -
  from assms have i: "i < length (phase a)" "i < length (func a)"
    and r: "min_val (phase a ! i) = 0 \<and> max_val (phase a ! i) = 360"
    by (auto simp: well_formed_def sizes_def dest: list_all_nth)
  with assms show ?thesis
    by (simp add: move_phase_def phspin_def func_reset_phase_nth FloatSpin_SetValue_def
        Sine_setPhase_def)
qed

subsection \<open>C8: from the controls to the oscillators\<close>

text \<open>
  C8. When the amplitude slider of a channel is put at \<open>v\<close>, between 0 and 105, its
  handler gives the oscillator of that channel the gain \<open>v / 100\<close>, the quotient of
  floats, which lies between 0 and the float 1.05; when the phase spinner of a channel is
  put at \<open>d\<close> degrees, between 0 and 360, its handler gives the oscillator the phase
  \<open>d / 360\<close>, which lies between 0 and 1.
\<close>

theorem controls_to_oscillator:
  assumes "well_formed a" and "i < CH_CNT"
      and "0 \<le> v" and "v \<le> 105" and "0 \<le> d" and "d \<le> 360"
  shows "fst (move_mul i v a) = None
     \<and> sine_mul (func (snd (move_mul i v a)) ! i) = fdiv (of_int v) 100
     \<and> 0 \<le> sine_mul (func (snd (move_mul i v a)) ! i)
     \<and> sine_mul (func (snd (move_mul i v a)) ! i) \<le> fdiv 105 100
     \<and> sine_phase (func (move_phase i d a) ! i) = fdiv d 360
     \<and> 0 \<le> sine_phase (func (move_phase i d a) ! i)
     \<and> sine_phase (func (move_phase i d a) ! i) \<le> 1"
proof -
  from assms have i: "i < length (func a)" by (simp add: well_formed_def sizes_def)
  have m: "sine_mul (func (snd (move_mul i v a)) ! i) = fdiv (of_int v) 100" "fst (move_mul i v a) = None"
    using i by (simp_all add: move_mul_at [OF assms(1-4)] Sine_setMul_def)
  have p: "sine_phase (func (move_phase i d a) ! i) = fdiv d 360"
    using move_phase_at [OF assms(1,2,5,6)] by simp
  from assms(3,4) have "(0::rat) \<le> of_int v / 100" "(of_int v :: rat) / 100 \<le> 105 / 100"
    by simp_all
  then have g: "0 \<le> fdiv (of_int v) 100" "fdiv (of_int v) 100 \<le> fdiv 105 100"
    using double_mono [of 0 "of_int v / 100"] double_mono [of "of_int v / 100" "105 / 100"]
    by (simp_all add: fdiv_def)
  from assms(5,6) have "0 \<le> d / 360" "d / 360 \<le> 1" by simp_all
  then have f: "0 \<le> fdiv d 360" "fdiv d 360 \<le> 1"
    using double_mono [of 0 "d / 360"] double_mono [of "d / 360" 1]
    by (simp_all add: fdiv_def double_1)
  from m p g f show ?thesis by simp
qed

theorem controls_to_oscillator_witness:
  "well_formed (init_audio 0) \<and> (4::nat) < CH_CNT
   \<and> sine_mul (func (snd (move_mul 4 105 (init_audio 0))) ! 4)
       = 4728779608739021 / 4503599627370496
   \<and> sine_mul (func (snd (move_mul 4 50 (init_audio 0))) ! 4) = 1 / 2
   \<and> sine_phase (func (move_phase 4 180 (init_audio 0)) ! 4) = 1 / 2"
proof -
  have h: "(4::nat) < CH_CNT" by (simp add: CH_CNT_def)
  have e: "fdiv 105 100 = 4728779608739021 / 4503599627370496" "fdiv 50 100 = 1 / 2"
    "fdiv 180 360 = 1 / 2"
    by code_simp+
  from controls_to_oscillator [OF well_formed_init_audio [of 0] h, of 105 180]
    controls_to_oscillator [OF well_formed_init_audio [of 0] h, of 50 180]
  show ?thesis using h well_formed_init_audio [of 0] by (simp add: e)
qed

subsection \<open>C6: gains and the scaling of the two groups\<close>

lemma Pan_out_well_formed:
  assumes "well_formed a"
  shows "Pan_out (Lch a) (func a) x =
           1 / 2 * (Sine_out (func a ! 0) (x 0) + Sine_out (func a ! 1) (x 1) + Sine_out (func a ! 2) (x 2))"
    and "Pan_out (Rch a) (func a) x =
           1 / 2 * (Sine_out (func a ! 3) (x 3) + Sine_out (func a ! 4) (x 4) + Sine_out (func a ! 5) (x 5))"
  using assms by (simp_all add: well_formed_def Pan_out_def Mix_out_def)

text \<open>
  C6. In every state of the panel that the program can reach, what each group sends out
  is half the sum of what its three oscillators give, whatever their gains are: the factor
  0.5 sits on the group, after the mix, and no handler changes it. A slider position up to
  105 is taken as it is, so that a gain up to 1.05 reaches the oscillator.
\<close>

theorem group_outputs_halved:
  assumes "reachable a"
  shows "Pan_out (Lch a) (func a) x =
           1 / 2 * (Sine_out (func a ! 0) (x 0) + Sine_out (func a ! 1) (x 1) + Sine_out (func a ! 2) (x 2))
     \<and> Pan_out (Rch a) (func a) x =
           1 / 2 * (Sine_out (func a ! 3) (x 3) + Sine_out (func a ! 4) (x 4) + Sine_out (func a ! 5) (x 5))
     \<and> pan_mul (Lch a) = 1 / 2 \<and> pan_mul (Rch a) = 1 / 2
     \<and> (\<forall>i w. i < CH_CNT \<and> 0 \<le> w \<and> w \<le> 105 \<longrightarrow>
            fst (move_mul i w a) = None
            \<and> sine_mul (func (snd (move_mul i w a)) ! i) = fdiv (of_int w) 100
            \<and> pan_mul (Lch (snd (move_mul i w a))) = 1 / 2
            \<and> pan_mul (Rch (snd (move_mul i w a))) = 1 / 2)"
proof -
  from assms have wf: "well_formed a" by (rule reachable_well_formed)
  have "fst (move_mul i w a) = None
            \<and> sine_mul (func (snd (move_mul i w a)) ! i) = fdiv (of_int w) 100
            \<and> pan_mul (Lch (snd (move_mul i w a))) = 1 / 2
            \<and> pan_mul (Rch (snd (move_mul i w a))) = 1 / 2"
    if "i < CH_CNT" "0 \<le> w" "w \<le> 105" for i w
  proof -
    from wf that have "i < length (func a)" by (simp add: well_formed_def sizes_def)
    with wf show ?thesis
      by (simp add: move_mul_at [OF wf that] Sine_setMul_def) (simp add: well_formed_def)
  qed
  moreover from wf have "pan_mul (Lch a) = 1 / 2" "pan_mul (Rch a) = 1 / 2"
    by (simp_all add: well_formed_def)
  ultimately show ?thesis
    using Pan_out_well_formed [OF wf, of x] by blast
qed

theorem group_outputs_halved_witness:
  "reachable (snd (move_mul 0 105 (init_audio 0)))
   \<and> sine_mul (func (snd (move_mul 0 105 (init_audio 0))) ! 0)
       = 4728779608739021 / 4503599627370496
   \<and> Pan_out (Lch (snd (move_mul 0 105 (init_audio 0)))) (func (snd (move_mul 0 105 (init_audio 0)))) (\<lambda>i. 1)
       = 1 / 2 * (4728779608739021 / 4503599627370496)"
proof -
  let ?a = "snd (move_mul 0 105 (init_audio 0))"
  have c: "(0::nat) < CH_CNT" by (simp add: CH_CNT_def)
  have r: "reachable ?a" by (rule reachable.mul_moved [OF reachable.created c])
  have m: "?a = (init_audio 0)\<lparr>mul := (mul (init_audio 0))[0 := (mul (init_audio 0) ! 0)\<lparr>sl_value := 105\<rparr>],
               func := (func (init_audio 0))[0 := Sine_setMul (fdiv (of_int 105) 100) (func (init_audio 0) ! 0)]\<rparr>"
    using move_mul_at [OF well_formed_init_audio [of 0] c, of 105] by simp
  have e: "fdiv 105 100 = 4728779608739021 / 4503599627370496" by code_simp
  have f: "func ?a = [\<lparr>sine_freq = 400, sine_mul = 4728779608739021 / 4503599627370496,
         sine_phase = 0, pointer = 0, playing = True\<rparr>,
       Sine_new 400 0, Sine_new 400 0, Sine_new 400 (1 / 2), Sine_new 400 0, Sine_new 400 0]"
  proof -
    have u: "[0..<6] = [0, 1, 2, 3, 4, 5]" by code_simp
    show ?thesis
      by (subst m)
         (simp add: init_audio_def CH_CNT_def u init_mul_def INIT_FREQ_def INIT_MUL_def
          Sine_new_def Sine_setMul_def e)
  qed
  from group_outputs_halved [OF r, of "\<lambda>i. 1"] r show ?thesis
    by (simp add: f Sine_out_def Sine_new_def)
qed

subsection \<open>Loads that succeed\<close>

lemma set_audio_params_ok:
  assumes "sizes a n" "length funclist \<le> n" "map (row_values pyfloat) funclist = map Some vals"
  shows "set_audio_params pyfloat funclist a = (None, reset_phase (put_rows 0 vals a))"
  using set_rows_ok [OF assms(1) _ assms(3), of 0] assms(2)
  by (simp add: set_audio_params_def)

lemma channel_reset_phase:
  assumes "sizes b n" "i < n"
  shows "channel (reset_phase b) i =
     (freq b ! i, mul b ! i, phase b ! i,
      Sine_setPhase (fdiv (fs_value (phase b ! i)) 360) (Sine_reset (func b ! i)))"
  using assms by (simp add: channel_def sizes_def func_reset_phase_nth)

lemma degrees_in_range:
  assumes "0 \<le> p" "p \<le> 1"
  shows "0 \<le> fmul p 360" "fmul p 360 \<le> 360"
proof -
  from assms have "0 \<le> p * 360" "p * 360 \<le> 360" by simp_all
  then show "0 \<le> fmul p 360" "fmul p 360 \<le> 360"
    using double_mono [of 0 "p * 360"] double_mono [of "p * 360" 360]
    by (simp_all add: fmul_def double_360)
qed

lemma row_channel_resynced:
  assumes "min_val cp = 0" "max_val cp = 360" "0 \<le> v2" "v2 \<le> 1"
  shows "(case row_channel (v0, v1, v2) (cf, cm, cp, f) of
            (cf', cm', cp', f') \<Rightarrow> (cf', cm', cp', Sine_setPhase (fdiv (fs_value cp') 360) (Sine_reset f')))
         = loaded_channel (v0, v1, v2) (cf, cm, cp, f)"
  using assms degrees_in_range [OF assms(3,4)]
  by (simp add: row_channel_def loaded_channel_def degrees_and_back_def FloatSpin_SetValue_def
      sine_of_def Sine_setPhase_def Sine_reset_def min_def max_def)

lemma channel_after_load:
  assumes "well_formed a" "length funclist \<le> CH_CNT"
      and "map (row_values pyfloat) funclist = map Some vals"
      and "list_all (\<lambda>(v0, v1, v2). 0 \<le> v2 \<and> v2 \<le> 1) vals"
      and "i < CH_CNT"
  shows "channel (snd (set_audio_params pyfloat funclist a)) i =
     (if i < length funclist then loaded_channel (vals ! i) (channel a i)
      else (freq a ! i, mul a ! i, phase a ! i,
            Sine_setPhase (fdiv (fs_value (phase a ! i)) 360) (Sine_reset (func a ! i))))"
proof -
  from assms(1) have s: "sizes a CH_CNT" by (simp add: well_formed_def)
  from assms(3) have len: "length vals = length funclist" by (metis length_map)
  let ?b = "put_rows 0 vals a"
  have b: "sizes ?b CH_CNT" using s by simp
  have eq: "snd (set_audio_params pyfloat funclist a) = reset_phase ?b"
    by (simp add: set_audio_params_ok [OF s assms(2,3)])
  have cb: "channel ?b i = (if i < length funclist then row_channel (vals ! i) (channel a i) else channel a i)"
    using channel_put_rows [OF s, of 0 vals i] assms(2) len by simp
  show ?thesis
  proof (cases "i < length funclist")
    case True
    obtain v0 v1 v2 where v: "vals ! i = (v0, v1, v2)" by (cases "vals ! i")
    from True len assms(4) v have r: "0 \<le> v2" "v2 \<le> 1"
      by (auto simp: list_all_length)
    from assms(1,5) have p: "min_val (phase a ! i) = 0" "max_val (phase a ! i) = 360"
      by (auto simp: well_formed_def sizes_def dest: list_all_nth)
    from cb True v have "channel ?b i = row_channel (v0, v1, v2) (freq a ! i, mul a ! i, phase a ! i, func a ! i)"
      by (simp add: channel_def)
    with row_channel_resynced [OF p r, of v0 v1 "freq a ! i" "mul a ! i" "func a ! i"]
    show ?thesis using True v
      by (simp add: eq channel_reset_phase [OF b assms(5)]) (simp add: channel_def split: prod.splits)
  next
    case False
    with cb have "channel ?b i = channel a i" by simp
    then show ?thesis using False
      by (simp add: eq channel_reset_phase [OF b assms(5)]) (simp add: channel_def)
  qed
qed


lemma get_audio_params_nth:
  "i < length (func a) \<Longrightarrow>
     get_audio_params a ! i = (sine_freq (func a ! i), sine_mul (func a ! i), sine_phase (func a ! i))"
  by (simp add: get_audio_params_def)

lemma sizes_after_load:
  assumes "sizes a n"
  shows "sizes (snd (set_audio_params pyfloat funclist a)) n"
proof -
  have "sizes (snd (set_rows pyfloat 0 funclist a)) n"
    unfolding set_rows_def
  proof (rule run_keeps [where P = "\<lambda>b. sizes b n"])
    show "sizes a n" by fact
  next
    fix c b e b'
    assume "c \<in> set (map (\<lambda>(i, f). set_row pyfloat i f) (List.enumerate 0 funclist))"
      and b: "sizes b n" and c: "c b = (e, b')"
    then obtain i f where r: "set_row pyfloat i f b = (e, b')" by auto
    show "sizes b' n"
    proof (cases e)
      case None
      with r set_row_None [of pyfloat i f b b'] b show ?thesis by auto
    next
      case (Some x)
      with r set_row_Some [of pyfloat i f b x b'] b show ?thesis by (simp add: sizes_def)
    qed
  qed
  then show ?thesis
    by (auto simp: set_audio_params_def sizes_def split: prod.splits option.splits)
qed

subsection \<open>C4: a file with fewer rows than channels\<close>

lemma degrees_and_back_examples:
  "degrees_and_back 0 = 0" "degrees_and_back (1 / 4) = 1 / 4" "degrees_and_back (1 / 2) = 1 / 2"
  "degrees_and_back 1 = 1"
  by code_simp+

lemma small_phase_changes:
  "0 \<le> small_phase" "small_phase \<le> 1" "degrees_and_back small_phase \<noteq> small_phase"
  by code_simp+

lemma small_phase_values:
  "small_phase = 1080863910568919 / 72057594037927936"
  "fmul small_phase 360 = 6079859496950169 / 1125899906842624"
  "degrees_and_back small_phase = 8646911284551351 / 576460752303423488"
  by code_simp+

lemma loaded_values:
  assumes "well_formed a" "length funclist \<le> CH_CNT"
      and "map (row_values pyfloat) funclist = map Some vals"
      and "list_all (\<lambda>(v0, v1, v2). 0 \<le> v2 \<and> v2 \<le> 1) vals"
      and "i < length funclist"
  shows "get_audio_params (snd (set_audio_params pyfloat funclist a)) ! i =
           (case vals ! i of (v0, v1, v2) \<Rightarrow> (v0, v1, degrees_and_back v2))"
proof -
  let ?a' = "snd (set_audio_params pyfloat funclist a)"
  from assms(1) have s: "sizes a CH_CNT" by (simp add: well_formed_def)
  from assms(2,5) have i: "i < CH_CNT" by simp
  have lf: "length (func ?a') = CH_CNT"
    using sizes_after_load [OF s, of pyfloat funclist] by (simp add: sizes_def)
  from channel_after_load [OF assms(1-4) i] assms(5)
  have "channel ?a' i = loaded_channel (vals ! i) (channel a i)" by simp
  then have "func ?a' ! i = (case vals ! i of (v0, v1, v2) \<Rightarrow> sine_of (v0, v1, degrees_and_back v2))"
    by (simp add: channel_def loaded_channel_def split: prod.splits)
  with i lf show ?thesis
    by (simp add: get_audio_params_nth sine_of_def split: prod.splits)
qed

text \<open>
  C4. The claim is that a file of \<open>k\<close> rows, \<open>k\<close> below the channel count, gives the
  channels below \<open>k\<close> the values of its rows and leaves the stored parameters of the other
  channels as they are. For good rows with phases between 0 and 1 the load ends without
  an exception, and channel \<open>i\<close> below \<open>k\<close> has the frequency and the gain of row \<open>i\<close>.
  Its phase is not always the phase \<open>p\<close> of the row: the oscillator gets \<open>p\<close> first, and
  the closing \<open>reset_phase\<close> then gives it the float \<open>(p * 360) / 360\<close> from the spinner,
  which is \<open>p\<close> for the phases 0, 0.25, 0.5 and 1, but not for every float. For a channel
  from \<open>k\<close> on, the values of its three controls are as before, and so are the frequency
  and the gain of its oscillator; \<open>reset_phase\<close> gives its oscillator the value of its
  spinner divided by 360 again, which is the phase it had wherever the two agreed before.
\<close>

theorem short_file_leaves_other_channels:
  assumes "well_formed a" and "length funclist < CH_CNT"
      and "map (row_values pyfloat) funclist = map Some vals"
      and "list_all (\<lambda>(v0, v1, v2). 0 \<le> v2 \<and> v2 \<le> 1) vals"
      and "a' = snd (set_audio_params pyfloat funclist a)"
  shows "fst (set_audio_params pyfloat funclist a) = None
     \<and> (\<forall>i<length funclist.
            channel a' i = loaded_channel (vals ! i) (channel a i)
            \<and> get_audio_params a' ! i = (case vals ! i of (v0, v1, v2) \<Rightarrow> (v0, v1, degrees_and_back v2)))
     \<and> (\<forall>i. length funclist \<le> i \<and> i < CH_CNT \<longrightarrow>
            freq a' ! i = freq a ! i \<and> mul a' ! i = mul a ! i \<and> phase a' ! i = phase a ! i
            \<and> sine_freq (func a' ! i) = sine_freq (func a ! i)
            \<and> sine_mul (func a' ! i) = sine_mul (func a ! i)
            \<and> playing (func a' ! i) = playing (func a ! i)
            \<and> sine_phase (func a' ! i) = fdiv (fs_value (phase a ! i)) 360
            \<and> (sine_phase (func a ! i) = fdiv (fs_value (phase a ! i)) 360 \<longrightarrow>
                 get_audio_params a' ! i = get_audio_params a ! i))"
proof -
  from assms(1) have s: "sizes a CH_CNT" by (simp add: well_formed_def)
  from assms(2) have le: "length funclist \<le> CH_CNT" by simp
  have ok: "fst (set_audio_params pyfloat funclist a) = None"
    by (simp add: set_audio_params_ok [OF s le assms(3)])
  have s': "sizes a' CH_CNT" unfolding assms(5) using s by (rule sizes_after_load)
  then have lf: "length (func a') = CH_CNT" and lf0: "length (func a) = CH_CNT"
    using s by (simp_all add: sizes_def)
  note ch = channel_after_load [OF assms(1) le assms(3,4), folded assms(5)]
  have low: "channel a' i = loaded_channel (vals ! i) (channel a i)
      \<and> get_audio_params a' ! i = (case vals ! i of (v0, v1, v2) \<Rightarrow> (v0, v1, degrees_and_back v2))"
    if "i < length funclist" for i
  proof -
    from that assms(2) have i: "i < CH_CNT" by simp
    from ch [OF i] that have "channel a' i = loaded_channel (vals ! i) (channel a i)" by simp
    with loaded_values [OF assms(1) le assms(3,4) that] show ?thesis by (simp add: assms(5))
  qed
  have high: "freq a' ! i = freq a ! i \<and> mul a' ! i = mul a ! i \<and> phase a' ! i = phase a ! i
            \<and> sine_freq (func a' ! i) = sine_freq (func a ! i)
            \<and> sine_mul (func a' ! i) = sine_mul (func a ! i)
            \<and> playing (func a' ! i) = playing (func a ! i)
            \<and> sine_phase (func a' ! i) = fdiv (fs_value (phase a ! i)) 360
            \<and> (sine_phase (func a ! i) = fdiv (fs_value (phase a ! i)) 360 \<longrightarrow>
                 get_audio_params a' ! i = get_audio_params a ! i)"
    if "length funclist \<le> i" "i < CH_CNT" for i
  proof -
    from ch [OF that(2)] that(1)
    have "channel a' i = (freq a ! i, mul a ! i, phase a ! i,
            Sine_setPhase (fdiv (fs_value (phase a ! i)) 360) (Sine_reset (func a ! i)))" by simp
    then show ?thesis using that(2) lf lf0
      by (simp add: channel_def get_audio_params_nth Sine_setPhase_def Sine_reset_def)
  qed
  from ok low high show ?thesis by blast
qed

lemma two_rows_read:
  "csv_reader two_rows = [[''440.0'', ''0.5'', ''0.0''], [''880.0'', ''0.25'', ''0.5'']]"
  by code_simp

lemma two_rows_values:
  "map (row_values decimal_float) (csv_reader two_rows) = map Some [(440, 1 / 2, 0), (880, 1 / 4, 1 / 2)]"
  by (simp add: two_rows_read row_values_def float_field_def decimal_examples)

lemma get_audio_params_init:
  "get_audio_params (init_audio wid) =
     [(400, 1 / 2, 0), (400, 0, 0), (400, 0, 0), (400, 1 / 2, 0), (400, 0, 0), (400, 0, 0)]"
proof -
  have u: "[0..<6] = [0, 1, 2, 3, 4, 5]" by code_simp
  show ?thesis
    by (simp add: get_audio_params_def init_audio_def CH_CNT_def u init_mul_def INIT_FREQ_def
        INIT_MUL_def Sine_new_def)
qed

theorem short_file_leaves_other_channels_witness:
  "well_formed (init_audio 0) \<and> length (csv_reader two_rows) < CH_CNT
   \<and> map (row_values decimal_float) (csv_reader two_rows)
       = map Some [(440, 1 / 2, 0), (880, 1 / 4, 1 / 2)]
   \<and> list_all (\<lambda>(v0, v1, v2). 0 \<le> v2 \<and> v2 \<le> 1) [(440, 1 / 2, 0), (880, 1 / 4, 1 / 2 :: rat)]
   \<and> fst (set_audio_params decimal_float (csv_reader two_rows) (init_audio 0)) = None
   \<and> get_audio_params (snd (set_audio_params decimal_float (csv_reader two_rows) (init_audio 0)))
       = [(440, 1 / 2, 0), (880, 1 / 4, 1 / 2), (400, 0, 0), (400, 1 / 2, 0), (400, 0, 0), (400, 0, 0)]
   \<and> drop 2 (get_audio_params (snd (set_audio_params decimal_float (csv_reader two_rows) (init_audio 0))))
       = drop 2 (get_audio_params (init_audio 0))"
proof -
  define a' where "a' = snd (set_audio_params decimal_float (csv_reader two_rows) (init_audio 0))"
  have h1: "well_formed (init_audio 0)" by (rule well_formed_init_audio)
  have h2: "length (csv_reader two_rows) < CH_CNT" by (simp add: two_rows_read CH_CNT_def)
  have h4: "list_all (\<lambda>(v0, v1, v2). 0 \<le> v2 \<and> v2 \<le> 1) [(440, 1 / 2, 0), (880, 1 / 4, 1 / 2 :: rat)]"
    by simp
  note t = short_file_leaves_other_channels [OF h1 h2 two_rows_values h4 a'_def]
  have len: "length (get_audio_params a') = 6"
    using sizes_after_load [OF sizes_init_audio [of 0], of decimal_float "csv_reader two_rows"]
    by (simp add: a'_def get_audio_params_def sizes_def CH_CNT_def)
  have ini: "sine_phase (func (init_audio 0) ! i) = fdiv (fs_value (phase (init_audio 0) ! i)) 360"
    if "i < 6" for i
    using that by (simp add: init_audio_def CH_CNT_def Sine_new_def INIT_PHASE_def fdiv_def)
  have n: "get_audio_params a' ! 0 = (440, 1 / 2, 0)" "get_audio_params a' ! 1 = (880, 1 / 4, 1 / 2)"
    "get_audio_params a' ! 2 = (400, 0, 0)" "get_audio_params a' ! 3 = (400, 1 / 2, 0)"
    "get_audio_params a' ! 4 = (400, 0, 0)" "get_audio_params a' ! 5 = (400, 0, 0)"
    using t ini
    by (simp_all add: two_rows_read CH_CNT_def get_audio_params_init degrees_and_back_examples)
  have eq: "get_audio_params a' =
      [(440, 1 / 2, 0), (880, 1 / 4, 1 / 2), (400, 0, 0), (400, 1 / 2, 0), (400, 0, 0), (400, 0, 0)]"
    using len n by (intro nth_equalityI) (auto simp: less_Suc_eq numeral_eq_Suc)
  from t have "fst (set_audio_params decimal_float (csv_reader two_rows) (init_audio 0)) = None"
    by blast
  with h1 h2 h4 two_rows_values eq show ?thesis
    by (simp add: a'_def [symmetric] get_audio_params_init)
qed

text \<open>
  The row \<open>440.0,0.5,0.015\<close> loaded into the panel as created: \<open>float\<close> reads the phase
  as the double 0.01499999999999999944488848768742172978818416595458984375, the spinner
  gets 5.39999999999999946709294817992486059665679931640625 degrees, and the phase that
  channel 0 has afterwards is 0.014999999999999998, one unit in the last place below the
  phase of the row.
\<close>

theorem loaded_phase_differs:
  "map (row_values decimal_float) (csv_reader small_phase_row) = [Some (440, 1 / 2, small_phase)]
   \<and> fst (set_audio_params decimal_float (csv_reader small_phase_row) (init_audio 0)) = None
   \<and> small_phase = 1080863910568919 / 72057594037927936
   \<and> get_audio_params (snd (set_audio_params decimal_float (csv_reader small_phase_row) (init_audio 0))) ! 0
       = (440, 1 / 2, 8646911284551351 / 576460752303423488)
   \<and> get_audio_params (snd (set_audio_params decimal_float (csv_reader small_phase_row) (init_audio 0))) ! 0
       \<noteq> (440, 1 / 2, small_phase)"
proof -
  have r: "map (row_values decimal_float) (csv_reader small_phase_row) = map Some [(440, 1 / 2, small_phase)]"
    by code_simp
  have l: "length (csv_reader small_phase_row) \<le> CH_CNT" "0 < length (csv_reader small_phase_row)"
    by code_simp+
  have p: "list_all (\<lambda>(v0, v1, v2). 0 \<le> v2 \<and> v2 \<le> 1) [(440, 1 / 2, small_phase)]"
    by (simp add: small_phase_changes)
  have g: "get_audio_params (snd (set_audio_params decimal_float (csv_reader small_phase_row) (init_audio 0))) ! 0
      = (440, 1 / 2, degrees_and_back small_phase)"
    using loaded_values [OF well_formed_init_audio [of 0] l(1) r p l(2)] by simp
  have ok: "fst (set_audio_params decimal_float (csv_reader small_phase_row) (init_audio 0)) = None"
    by (simp add: set_audio_params_ok [OF sizes_init_audio [of 0] l(1) r])
  have ne: "(440, 1 / 2, degrees_and_back small_phase) \<noteq> (440, 1 / 2, small_phase)"
    using small_phase_changes(3) by simp
  from r ok ne small_phase_values(1) show ?thesis
    unfolding g by (simp add: small_phase_values(3))
qed

subsection \<open>C2: round trips\<close>

lemma get_after_load:
  assumes "well_formed a" "length funclist \<le> CH_CNT"
      and "map (row_values pyfloat) funclist = map Some vals"
      and "list_all (\<lambda>(v0, v1, v2). 0 \<le> v2 \<and> v2 \<le> 1) vals"
  shows "fst (set_audio_params pyfloat funclist a) = None"
    and "take (length funclist) (get_audio_params (snd (set_audio_params pyfloat funclist a)))
           = map (\<lambda>(v0, v1, v2). (v0, v1, degrees_and_back v2)) vals"
proof -
  let ?a' = "snd (set_audio_params pyfloat funclist a)"
  from assms(1) have s: "sizes a CH_CNT" by (simp add: well_formed_def)
  show "fst (set_audio_params pyfloat funclist a) = None"
    by (simp add: set_audio_params_ok [OF s assms(2,3)])
  from assms(3) have len: "length vals = length funclist" by (metis length_map)
  have lf: "length (func ?a') = CH_CNT"
    using sizes_after_load [OF s, of pyfloat funclist] by (simp add: sizes_def)
  show "take (length funclist) (get_audio_params ?a')
          = map (\<lambda>(v0, v1, v2). (v0, v1, degrees_and_back v2)) vals"
  proof (rule nth_equalityI)
    show "length (take (length funclist) (get_audio_params ?a'))
            = length (map (\<lambda>(v0, v1, v2). (v0, v1, degrees_and_back v2)) vals)"
      using lf len assms(2) by (simp add: get_audio_params_def)
  next
    fix i assume "i < length (take (length funclist) (get_audio_params ?a'))"
    then have i: "i < length funclist" by simp
    with loaded_values [OF assms i] len
    show "take (length funclist) (get_audio_params ?a') ! i
            = map (\<lambda>(v0, v1, v2). (v0, v1, degrees_and_back v2)) vals ! i"
      by (simp split: prod.splits)
  qed
qed

lemma row_values_floats: "row_values Some [f, g, p] = Some (f, g, p)"
  by (simp add: row_values_def float_field_def)

lemma row_values_repr:
  assumes "pyfloat (pyrepr f) = Some f" "pyfloat (pyrepr g) = Some g" "pyfloat (pyrepr p) = Some p"
  shows "row_values pyfloat [pyrepr f, pyrepr g, pyrepr p] = Some (f, g, p)"
  using assms by (simp add: row_values_def float_field_def)

text \<open>
  C2. The claim is that values given to \<open>set_audio_params\<close> are read back unchanged by
  \<open>get_audio_params\<close>, and likewise after \<open>save\<close> and \<open>load\<close>. For one row for each
  channel from channel 0 on, with phases between 0 and 1, the frequencies and the gains
  are read back as given, in the same order. A phase \<open>p\<close> is read back as the float
  \<open>(p * 360) / 360\<close>, since the closing \<open>reset_phase\<close> takes it from the spinner, which
  holds it in degrees: this is \<open>p\<close> for phases such as 0, 0.25, 0.5 and 1, but not for every
  float. Loading the rows that \<open>save_press\<close> writes goes the same way, when \<open>float\<close> gives
  back each number from the text written for it.
\<close>

theorem set_get_round_trip:
  assumes "well_formed a" and "length vals \<le> CH_CNT"
      and "list_all (\<lambda>(v0, v1, v2). 0 \<le> v2 \<and> v2 \<le> 1) vals"
      and "well_formed (audio m)"
      and "list_all (\<lambda>(v0, v1, v2). 0 \<le> v2 \<and> v2 \<le> 1) (get_audio_params (audio m))"
      and "list_all (\<lambda>(v0, v1, v2). pyfloat (pyrepr v0) = Some v0 \<and> pyfloat (pyrepr v1) = Some v1
                       \<and> pyfloat (pyrepr v2) = Some v2) (get_audio_params (audio m))"
      and "fs' = save_press pyrepr (Some path) fs m"
  shows "fst (set_audio_params Some (map (\<lambda>(f, g, p). [f, g, p]) vals) a) = None
     \<and> take (length vals)
          (get_audio_params (snd (set_audio_params Some (map (\<lambda>(f, g, p). [f, g, p]) vals) a)))
         = map (\<lambda>(f, g, p). (f, g, degrees_and_back p)) vals
     \<and> fst (load_press pyfloat fs' (Some path) m) = None
     \<and> get_audio_params (audio (snd (load_press pyfloat fs' (Some path) m)))
         = map (\<lambda>(f, g, p). (f, g, degrees_and_back p)) (get_audio_params (audio m))"
proof -
  let ?rows = "map (\<lambda>(f, g, p). [f, g, p]) vals"
  have r: "map (row_values Some) ?rows = map Some vals"
    by (auto simp: row_values_floats)
  have l: "length ?rows \<le> CH_CNT" using assms(2) by simp
  note first = get_after_load [OF assms(1) l r assms(3)]
  let ?saved = "map (\<lambda>(f, g, p). [pyrepr f, pyrepr g, pyrepr p]) (get_audio_params (audio m))"
  have saved: "fs' path = Some ?saved" by (simp add: assms(7) save_press_def)
  have n: "length (get_audio_params (audio m)) = CH_CNT"
    using assms(4) by (simp add: get_audio_params_def well_formed_def sizes_def)
  have l2: "length ?saved \<le> CH_CNT" using n by simp
  have r2: "map (row_values pyfloat) ?saved = map Some (get_audio_params (audio m))"
    using assms(6) by (auto simp: list_all_iff row_values_repr)
  note second = get_after_load [OF assms(4) l2 r2 assms(5)]
  let ?a' = "snd (set_audio_params pyfloat ?saved (audio m))"
  have "length (get_audio_params ?a') = CH_CNT"
    using sizes_after_load [of "audio m" CH_CNT pyfloat ?saved] assms(4)
    by (simp add: get_audio_params_def well_formed_def sizes_def)
  with second(2) n have same: "get_audio_params ?a'
      = map (\<lambda>(f, g, p). (f, g, degrees_and_back p)) (get_audio_params (audio m))" by simp
  have lp: "load_press pyfloat fs' (Some path) m =
      (fst (set_audio_params pyfloat ?saved (audio m)), m\<lparr>filelist := Some [], audio := ?a'\<rparr>)"
    using start_next_file_Cons [of "m\<lparr>filelist := Some [path]\<rparr>" path "[]" fs' ?saved pyfloat] saved
    by (simp add: load_press_def load_paths_def GetPaths_def)
  from first second(1) same show ?thesis by (simp add: lp)
qed

theorem set_get_round_trip_witness:
  "well_formed (init_audio 0) \<and> length [(440, 1 / 2, 0), (880, 1 / 4, 1 / 2 :: rat)] \<le> CH_CNT
   \<and> take 2 (get_audio_params (snd (set_audio_params Some
         [[440, 1 / 2, 0], [880, 1 / 4, 1 / 2]] (init_audio 0))))
       = [(440, 1 / 2, 0), (880, 1 / 4, 1 / 2)]
   \<and> list_all (\<lambda>(v0, v1, v2). decimal_float (decimal_repr v0) = Some v0
                  \<and> decimal_float (decimal_repr v1) = Some v1
                  \<and> decimal_float (decimal_repr v2) = Some v2)
        (get_audio_params (audio (init_frame 0)))
   \<and> save_press decimal_repr (Some ''saved.csv'') Map.empty (init_frame 0) ''saved.csv''
       = Some [[''400.0'', ''0.5'', ''0.0''], [''400.0'', ''0.0'', ''0.0''], [''400.0'', ''0.0'', ''0.0''],
               [''400.0'', ''0.5'', ''0.0''], [''400.0'', ''0.0'', ''0.0''], [''400.0'', ''0.0'', ''0.0'']]
   \<and> fst (load_press decimal_float (save_press decimal_repr (Some ''saved.csv'') Map.empty (init_frame 0))
            (Some ''saved.csv'') (init_frame 0)) = None
   \<and> get_audio_params (audio (snd (load_press decimal_float
          (save_press decimal_repr (Some ''saved.csv'') Map.empty (init_frame 0))
          (Some ''saved.csv'') (init_frame 0))))
       = [(400, 1 / 2, 0), (400, 0, 0), (400, 0, 0), (400, 1 / 2, 0), (400, 0, 0), (400, 0, 0)]"
proof -
  have d: "decimal_repr 400 = ''400.0''" "decimal_repr (1 / 2) = ''0.5''" "decimal_repr 0 = ''0.0''"
    by code_simp+
  have p: "decimal_float ''400.0'' = Some 400" "decimal_float ''0.5'' = Some (1 / 2)"
    "decimal_float ''0.0'' = Some 0"
    by code_simp+
  have g: "get_audio_params (audio (init_frame 0)) =
      [(400, 1 / 2, 0), (400, 0, 0), (400, 0, 0), (400, 1 / 2, 0), (400, 0, 0), (400, 0, 0)]"
    by (simp add: init_frame_def get_audio_params_init)
  have h1: "well_formed (init_audio 0)" by (rule well_formed_init_audio)
  have h2: "length [(440, 1 / 2, 0), (880, 1 / 4, 1 / 2 :: rat)] \<le> CH_CNT" by (simp add: CH_CNT_def)
  have h3: "list_all (\<lambda>(v0, v1, v2). 0 \<le> v2 \<and> v2 \<le> 1) [(440, 1 / 2, 0), (880, 1 / 4, 1 / 2 :: rat)]"
    by simp
  have h4: "well_formed (audio (init_frame 0))" by (simp add: init_frame_def well_formed_init_audio)
  have h5: "list_all (\<lambda>(v0, v1, v2). 0 \<le> v2 \<and> v2 \<le> 1) (get_audio_params (audio (init_frame 0)))"
    by (simp add: g)
  have h6: "list_all (\<lambda>(v0, v1, v2). decimal_float (decimal_repr v0) = Some v0
                  \<and> decimal_float (decimal_repr v1) = Some v1
                  \<and> decimal_float (decimal_repr v2) = Some v2)
        (get_audio_params (audio (init_frame 0)))"
    by (simp add: g d p)
  have sv: "save_press decimal_repr (Some ''saved.csv'') Map.empty (init_frame 0) ''saved.csv''
       = Some [[''400.0'', ''0.5'', ''0.0''], [''400.0'', ''0.0'', ''0.0''], [''400.0'', ''0.0'', ''0.0''],
               [''400.0'', ''0.5'', ''0.0''], [''400.0'', ''0.0'', ''0.0''], [''400.0'', ''0.0'', ''0.0'']]"
    by (simp add: save_press_def g d)
  let ?vals = "[(440, 1 / 2, 0), (880, 1 / 4, 1 / 2)] :: (rat \<times> rat \<times> rat) list"
  have "fst (set_audio_params Some (map (\<lambda>(f, g, p). [f, g, p]) ?vals) (init_audio 0)) = None
     \<and> take (length ?vals)
          (get_audio_params (snd (set_audio_params Some
             (map (\<lambda>(f, g, p). [f, g, p]) ?vals) (init_audio 0))))
         = map (\<lambda>(f, g, p). (f, g, degrees_and_back p)) ?vals
     \<and> fst (load_press decimal_float (save_press decimal_repr (Some ''saved.csv'') Map.empty (init_frame 0))
            (Some ''saved.csv'') (init_frame 0)) = None
     \<and> get_audio_params (audio (snd (load_press decimal_float
            (save_press decimal_repr (Some ''saved.csv'') Map.empty (init_frame 0))
            (Some ''saved.csv'') (init_frame 0))))
         = map (\<lambda>(f, g, p). (f, g, degrees_and_back p)) (get_audio_params (audio (init_frame 0)))"
    using h1 h2 h3 h4 h5 h6
    by (rule set_get_round_trip [where pyfloat = decimal_float and pyrepr = decimal_repr]) simp
  then show ?thesis using h1 h2 h6 sv
    by (simp add: g numeral_2_eq_2 degrees_and_back_examples)
qed

text \<open>
  The phase 0.015, a float between 0 and 1, given for channel 0 of the panel as created:
  the phase read back is 0.014999999999999998.
\<close>

theorem phase_not_read_back:
  "0 \<le> small_phase \<and> small_phase \<le> 1
   \<and> fst (set_audio_params Some [[440, 1 / 2, small_phase]] (init_audio 0)) = None
   \<and> take 1 (get_audio_params (snd (set_audio_params Some [[440, 1 / 2, small_phase]] (init_audio 0))))
       = [(440, 1 / 2, 8646911284551351 / 576460752303423488)]
   \<and> take 1 (get_audio_params (snd (set_audio_params Some [[440, 1 / 2, small_phase]] (init_audio 0))))
       \<noteq> [(440, 1 / 2, small_phase)]"
proof -
  have r: "map (row_values Some) [[440, 1 / 2, small_phase]] = map Some [(440, 1 / 2, small_phase)]"
    by (simp add: row_values_floats)
  have l: "length [[440, 1 / 2, small_phase]] \<le> CH_CNT" by (simp add: CH_CNT_def)
  have p: "list_all (\<lambda>(v0, v1, v2). 0 \<le> v2 \<and> v2 \<le> 1) [(440, 1 / 2, small_phase)]"
    by (simp add: small_phase_changes)
  from get_after_load [OF well_formed_init_audio [of 0] l r p] small_phase_changes
  show ?thesis by (simp add: small_phase_values(3))
qed

subsection \<open>The playback queue\<close>







lemma server_set_audio_params [simp]:
  "server (snd (set_audio_params pyfloat funclist a)) = server a"
proof -
  have row: "server (snd (set_row pyfloat i f b)) = server a" if "server b = server a" for i f b
    unfolding set_row_def
  proof (rule run_keeps [where P = "\<lambda>b. server b = server a"])
    show "server b = server a" by fact
  next
    fix c d e d'
    assume "c \<in> set [set_freq_ctrl pyfloat i f, set_mul_ctrl pyfloat i f,
        set_phase_ctrl pyfloat i f, func_call i Sine_stop, func_call i Sine_reset,
        func_call_float pyfloat i f 0 Sine_setFreq, func_call_float pyfloat i f 1 Sine_setMul,
        func_call_float pyfloat i f 2 Sine_setPhase, func_call i Sine_play]"
      and "server d = server a" and "c d = (e, d')"
    then show "server d' = server a"
      by (auto simp: set_freq_ctrl_def set_mul_ctrl_def set_phase_ctrl_def func_call_def
          func_call_float_def split: if_splits sum.splits)
  qed
  have "server (snd (set_rows pyfloat 0 funclist a)) = server a"
    unfolding set_rows_def
  proof (rule run_keeps [where P = "\<lambda>b. server b = server a"])
    show "server a = server a" by simp
  next
    fix c b e b'
    assume "c \<in> set (map (\<lambda>(i, f). set_row pyfloat i f) (List.enumerate 0 funclist))"
      and b: "server b = server a" and c: "c b = (e, b')"
    then obtain i f where "c = set_row pyfloat i f" by auto
    with row [OF b, of i f] c show "server b' = server a" by simp
  qed
  then show ?thesis
    by (auto simp: set_audio_params_def split: prod.splits option.splits)
qed

lemma server_load_file [simp]: "server (snd (load_file pyfloat fs p a)) = server a"
  by (simp add: load_file_def split: option.splits)



subsection \<open>C3: zero, one and two files\<close>




end
